theory Spec2Isabelle
  imports Complex_Main "HOL-Library.List_Lexorder" "HOL-Library.Code_Target_Nat"
begin

section \<open>Python strings\<close>

text \<open>
  A Python \<open>str\<close> is a sequence of Unicode code points, so a string is a list of code
  points, each a natural number. \<open>len\<close> is \<open>length\<close>, \<open>s[i]\<close> is \<open>s ! i\<close>.
\<close>

type_synonym ustring = "nat list"

text \<open>\<open>str.isspace\<close> per code point: the characters \<open>str.strip()\<close> removes.\<close>

definition is_space :: "nat \<Rightarrow> bool" where
  "is_space c =
     ((9 \<le> c \<and> c \<le> 13) \<or> (28 \<le> c \<and> c \<le> 32) \<or> c = 133 \<or> c = 160 \<or> c = 5760 \<or>
      (8192 \<le> c \<and> c \<le> 8202) \<or> c = 8232 \<or> c = 8233 \<or> c = 8239 \<or> c = 8287 \<or>
      c = 12288)"

text \<open>\<open>s.lstrip(chars)\<close>, \<open>s.rstrip(chars)\<close>, \<open>s.strip(chars)\<close> and \<open>s.strip()\<close>.\<close>

definition lstrip_chars :: "ustring \<Rightarrow> ustring \<Rightarrow> ustring" where
  "lstrip_chars chars s = dropWhile (\<lambda>c. c \<in> set chars) s"

definition rstrip_chars :: "ustring \<Rightarrow> ustring \<Rightarrow> ustring" where
  "rstrip_chars chars s = rev (dropWhile (\<lambda>c. c \<in> set chars) (rev s))"

definition strip_chars :: "ustring \<Rightarrow> ustring \<Rightarrow> ustring" where
  "strip_chars chars s = rstrip_chars chars (lstrip_chars chars s)"

definition strip :: "ustring \<Rightarrow> ustring" where
  "strip s = rev (dropWhile is_space (rev (dropWhile is_space s)))"

text \<open>\<open>s.startswith(p)\<close>, \<open>s.endswith(p)\<close>, \<open>sub in s\<close> and \<open>s.find(sub)\<close>
  (the lowest index of an occurrence, \<open>-1\<close> when there is none).\<close>

definition startswith :: "ustring \<Rightarrow> ustring \<Rightarrow> bool" where
  "startswith s p = (take (length p) s = p)"

definition endswith :: "ustring \<Rightarrow> ustring \<Rightarrow> bool" where
  "endswith s p = startswith (rev s) (rev p)"

fun contains :: "ustring \<Rightarrow> ustring \<Rightarrow> bool" where
  "contains [] sub = (sub = [])"
| "contains (x # xs) sub = (startswith (x # xs) sub \<or> contains xs sub)"

fun find_from :: "nat \<Rightarrow> ustring \<Rightarrow> ustring \<Rightarrow> int" where
  "find_from i [] sub = (if sub = [] then int i else - 1)"
| "find_from i (x # xs) sub =
     (if startswith (x # xs) sub then int i else find_from (Suc i) xs sub)"

definition str_find :: "ustring \<Rightarrow> ustring \<Rightarrow> int" where
  "str_find s sub = find_from 0 s sub"

text \<open>The slices \<open>s[k:]\<close> and \<open>s[:k]\<close>; a negative bound counts from the end.\<close>

definition slice_from :: "ustring \<Rightarrow> int \<Rightarrow> ustring" where
  "slice_from s k = (if k < 0 then drop (nat (int (length s) + k)) s else drop (nat k) s)"

definition slice_to :: "ustring \<Rightarrow> int \<Rightarrow> ustring" where
  "slice_to s k = (if k < 0 then take (nat (int (length s) + k)) s else take (nat k) s)"

text \<open>
  \<open>str.upper\<close> and \<open>str.lower\<close> apply the Unicode case mapping, a table of the
  interpreter that is not part of this repository. The functions below take the case
  mapping as a parameter (\<open>upper\<close>, \<open>lower\<close>, from strings to strings), and every
  general theorem holds for any such mapping. For evaluation on concrete inputs,
  \<open>upper_excerpt\<close> and \<open>lower_excerpt\<close> are the mapping on Basic Latin, Latin-1
  Supplement and Cyrillic U+0400 to U+045F, and on U+0130; on these blocks they agree
  with CPython, elsewhere they leave a code point unchanged. A case mapping may change
  the length of a string: U+00DF (sharp s) upper-cases to two code points, U+0130
  lower-cases to two.
\<close>

definition upper_cp :: "nat \<Rightarrow> ustring" where
  "upper_cp c =
     (if 97 \<le> c \<and> c \<le> 122 then [c - 32]
      else if c = 181 then [924]
      else if c = 223 then [83, 83]
      else if 224 \<le> c \<and> c \<le> 254 \<and> c \<noteq> 247 then [c - 32]
      else if c = 255 then [376]
      else if 1072 \<le> c \<and> c \<le> 1103 then [c - 32]
      else if 1104 \<le> c \<and> c \<le> 1119 then [c - 80]
      else [c])"

definition upper_excerpt :: "ustring \<Rightarrow> ustring" where
  "upper_excerpt s = concat (map upper_cp s)"

definition lower_cp :: "nat \<Rightarrow> ustring" where
  "lower_cp c =
     (if 65 \<le> c \<and> c \<le> 90 then [c + 32]
      else if 192 \<le> c \<and> c \<le> 222 \<and> c \<noteq> 215 then [c + 32]
      else if c = 304 then [105, 775]
      else if 1024 \<le> c \<and> c \<le> 1039 then [c + 80]
      else if 1040 \<le> c \<and> c \<le> 1071 then [c + 32]
      else [c])"

definition lower_excerpt :: "ustring \<Rightarrow> ustring" where
  "lower_excerpt s = concat (map lower_cp s)"

section \<open>The field extractor\<close>

text \<open>The marker literal, U+041F U+0420 U+0415 U+0414 U+0410 U+041B.\<close>

definition PREDAL :: ustring where
  "PREDAL = [1055, 1056, 1045, 1044, 1040, 1051]"

text \<open>The argument of \<open>lstrip\<close>: space, colon, no-break space.\<close>

definition MARKER_PUNCT :: ustring where
  "MARKER_PUNCT = [32, 58, 160]"

text \<open>
  \<open>extract_predal_from_chunks\<close> of desktop_app.py. The loop runs over
  \<open>enumerate(upper_chunks)\<close>: the index \<open>i\<close>, the upper-cased chunks still to visit,
  and the list \<open>chunks\<close> that \<open>chunks[i]\<close> and \<open>chunks[i + 1]\<close> read. Falling out of
  the \<open>for\<close> returns \<open>None\<close>. \<open>upper_chunks\<close> has the length of \<open>chunks\<close>, so \<open>i\<close>
  stays below it, and \<open>chunks[i + 1]\<close> is read behind its bound test.
\<close>

fun predal_loop ::
  "(ustring \<Rightarrow> ustring) \<Rightarrow> ustring list \<Rightarrow> nat \<Rightarrow> ustring list \<Rightarrow> ustring option" where
  "predal_loop upper chunks i [] = None"
| "predal_loop upper chunks i (chunk_upper # rest) =
     (if contains chunk_upper PREDAL then
        (let original = chunks ! i;
             idx = str_find (upper original) PREDAL;
             after = lstrip_chars MARKER_PUNCT (slice_from original (idx + int (length PREDAL)))
         in if after \<noteq> [] then Some after
            else if i + 1 < length chunks then
              (let next_chunk = strip (chunks ! (i + 1))
               in if next_chunk \<noteq> [] \<and> \<not> endswith next_chunk [58] then Some next_chunk
                  else predal_loop upper chunks (i + 1) rest)
            else predal_loop upper chunks (i + 1) rest)
      else predal_loop upper chunks (i + 1) rest)"

definition extract_predal_from_chunks ::
  "(ustring \<Rightarrow> ustring) \<Rightarrow> ustring list \<Rightarrow> ustring option" where
  "extract_predal_from_chunks upper chunks = predal_loop upper chunks 0 (map upper chunks)"

text \<open>The copy in extract_predal.py.\<close>

fun predal_loop_cli ::
  "(ustring \<Rightarrow> ustring) \<Rightarrow> ustring list \<Rightarrow> nat \<Rightarrow> ustring list \<Rightarrow> ustring option" where
  "predal_loop_cli upper chunks i [] = None"
| "predal_loop_cli upper chunks i (chunk_upper # rest) =
     (if contains chunk_upper PREDAL then
        (let original = chunks ! i;
             idx = str_find (upper original) PREDAL;
             after = lstrip_chars MARKER_PUNCT (slice_from original (idx + int (length PREDAL)))
         in if after \<noteq> [] then Some after
            else if i + 1 < length chunks then
              (let next_chunk = strip (chunks ! (i + 1))
               in if next_chunk \<noteq> [] \<and> \<not> endswith next_chunk [58] then Some next_chunk
                  else predal_loop_cli upper chunks (i + 1) rest)
            else predal_loop_cli upper chunks (i + 1) rest)
      else predal_loop_cli upper chunks (i + 1) rest)"

definition extract_predal_from_chunks_cli ::
  "(ustring \<Rightarrow> ustring) \<Rightarrow> ustring list \<Rightarrow> ustring option" where
  "extract_predal_from_chunks_cli upper chunks =
     predal_loop_cli upper chunks 0 (map upper chunks)"

text \<open>The copy in lagardere_table.py.\<close>

fun predal_loop_table ::
  "(ustring \<Rightarrow> ustring) \<Rightarrow> ustring list \<Rightarrow> nat \<Rightarrow> ustring list \<Rightarrow> ustring option" where
  "predal_loop_table upper chunks i [] = None"
| "predal_loop_table upper chunks i (chunk_upper # rest) =
     (if contains chunk_upper PREDAL then
        (let original = chunks ! i;
             idx = str_find (upper original) PREDAL;
             after = lstrip_chars MARKER_PUNCT (slice_from original (idx + int (length PREDAL)))
         in if after \<noteq> [] then Some after
            else if i + 1 < length chunks then
              (let next_chunk = strip (chunks ! (i + 1))
               in if next_chunk \<noteq> [] \<and> \<not> endswith next_chunk [58] then Some next_chunk
                  else predal_loop_table upper chunks (i + 1) rest)
            else predal_loop_table upper chunks (i + 1) rest)
      else predal_loop_table upper chunks (i + 1) rest)"

definition extract_predal_from_chunks_table ::
  "(ustring \<Rightarrow> ustring) \<Rightarrow> ustring list \<Rightarrow> ustring option" where
  "extract_predal_from_chunks_table upper chunks =
     predal_loop_table upper chunks 0 (map upper chunks)"

text \<open>The copy in app.py.\<close>

fun predal_loop_app ::
  "(ustring \<Rightarrow> ustring) \<Rightarrow> ustring list \<Rightarrow> nat \<Rightarrow> ustring list \<Rightarrow> ustring option" where
  "predal_loop_app upper chunks i [] = None"
| "predal_loop_app upper chunks i (chunk_upper # rest) =
     (if contains chunk_upper PREDAL then
        (let original = chunks ! i;
             idx = str_find (upper original) PREDAL;
             after = lstrip_chars MARKER_PUNCT (slice_from original (idx + int (length PREDAL)))
         in if after \<noteq> [] then Some after
            else if i + 1 < length chunks then
              (let next_chunk = strip (chunks ! (i + 1))
               in if next_chunk \<noteq> [] \<and> \<not> endswith next_chunk [58] then Some next_chunk
                  else predal_loop_app upper chunks (i + 1) rest)
            else predal_loop_app upper chunks (i + 1) rest)
      else predal_loop_app upper chunks (i + 1) rest)"

definition extract_predal_from_chunks_app ::
  "(ustring \<Rightarrow> ustring) \<Rightarrow> ustring list \<Rightarrow> ustring option" where
  "extract_predal_from_chunks_app upper chunks =
     predal_loop_app upper chunks 0 (map upper chunks)"

section \<open>Properties of the field extractor\<close>

lemma predal_loop_nonempty:
  "predal_loop upper chunks i us = Some v \<Longrightarrow> v \<noteq> []"
proof (induction us arbitrary: i)
  case Nil
  then show ?case by simp
next
  case (Cons u us)
  then show ?case
    by (auto simp: Let_def split: if_splits)
qed

text \<open>
  C10. Whenever the field extractor returns a value rather than \<open>None\<close>, the value is a
  non-empty string, whatever the case mapping and the chunks are.
\<close>

theorem extract_predal_present_nonempty:
  "extract_predal_from_chunks upper chunks = Some v \<Longrightarrow> v \<noteq> []"
  unfolding extract_predal_from_chunks_def by (rule predal_loop_nonempty)

theorem extract_predal_present_nonempty_witness:
  "extract_predal_from_chunks upper_excerpt
     [[1055, 1056, 1045, 1044, 1040, 1051, 58], [1048, 1074, 1072, 1085]]
     = Some [1048, 1074, 1072, 1085] \<and> [1048, 1074, 1072, 1085] \<noteq> ([] :: ustring)"
proof -
  have run: "extract_predal_from_chunks upper_excerpt
      [[1055, 1056, 1045, 1044, 1040, 1051, 58], [1048, 1074, 1072, 1085]]
      = Some [1048, 1074, 1072, 1085]"
    by code_simp
  from extract_predal_present_nonempty [OF run] run show ?thesis by simp
qed

lemma predal_loop_cli_eq:
  "predal_loop_cli upper chunks i us = predal_loop upper chunks i us"
  by (induction us arbitrary: i) (simp_all add: Let_def)

lemma predal_loop_table_eq:
  "predal_loop_table upper chunks i us = predal_loop upper chunks i us"
  by (induction us arbitrary: i) (simp_all add: Let_def)

lemma predal_loop_app_eq:
  "predal_loop_app upper chunks i us = predal_loop upper chunks i us"
  by (induction us arbitrary: i) (simp_all add: Let_def)

text \<open>
  C9. The four copies of the field extractor (extract_predal.py, lagardere_table.py,
  app.py and desktop_app.py) return the same result on every chunk sequence, for every
  case mapping.
\<close>

theorem extract_predal_copies_equal:
  "extract_predal_from_chunks_cli upper chunks = extract_predal_from_chunks upper chunks \<and>
   extract_predal_from_chunks_table upper chunks = extract_predal_from_chunks upper chunks \<and>
   extract_predal_from_chunks_app upper chunks = extract_predal_from_chunks upper chunks"
  by (simp add: extract_predal_from_chunks_cli_def extract_predal_from_chunks_table_def
      extract_predal_from_chunks_app_def extract_predal_from_chunks_def
      predal_loop_cli_eq predal_loop_table_eq predal_loop_app_eq)

theorem extract_predal_copies_equal_witness:
  "extract_predal_from_chunks_cli upper_excerpt
       [[1087, 1088, 1077, 1076, 1072, 1083, 58, 32, 1048]] = Some [1048] \<and>
   extract_predal_from_chunks_table upper_excerpt
       [[1087, 1088, 1077, 1076, 1072, 1083, 58, 32, 1048]] = Some [1048] \<and>
   extract_predal_from_chunks_app upper_excerpt
       [[1087, 1088, 1077, 1076, 1072, 1083, 58, 32, 1048]] = Some [1048]"
proof -
  have run: "extract_predal_from_chunks upper_excerpt
      [[1087, 1088, 1077, 1076, 1072, 1083, 58, 32, 1048]] = Some [1048]"
    by code_simp
  from extract_predal_copies_equal
    [of upper_excerpt "[[1087, 1088, 1077, 1076, 1072, 1083, 58, 32, 1048]]"] run
  show ?thesis by simp
qed

subsection \<open>The extractor against its specification\<close>

text \<open>\<open>first_at s sub\<close> is the least position of \<open>s\<close> where \<open>sub\<close> starts.\<close>

fun first_at :: "ustring \<Rightarrow> ustring \<Rightarrow> nat option" where
  "first_at [] sub = (if sub = [] then Some 0 else None)"
| "first_at (x # xs) sub =
     (if startswith (x # xs) sub then Some 0 else map_option Suc (first_at xs sub))"

text \<open>
  The specification of the extractor, in its own words. The marker stands in a chunk,
  whatever the case of its letters, at the first position from which the rest of the
  chunk upper-cases to a text that starts with the marker. The value is the text of
  the chunk after the marker's end, without leading spaces, colons and no-break
  spaces; when that is empty, the next chunk, trimmed, unless it ends with a colon;
  otherwise the scan goes on with the chunks that follow.
\<close>

fun marker_position :: "(ustring \<Rightarrow> ustring) \<Rightarrow> ustring \<Rightarrow> nat option" where
  "marker_position upper [] = (if startswith (upper []) PREDAL then Some 0 else None)"
| "marker_position upper (x # xs) =
     (if startswith (upper (x # xs)) PREDAL then Some 0
      else map_option Suc (marker_position upper xs))"

fun extract_reference :: "(ustring \<Rightarrow> ustring) \<Rightarrow> ustring list \<Rightarrow> ustring option" where
  "extract_reference upper [] = None"
| "extract_reference upper (c # rest) =
     (case marker_position upper c of
        None \<Rightarrow> extract_reference upper rest
      | Some k \<Rightarrow>
          (let after = lstrip_chars MARKER_PUNCT (drop (k + length PREDAL) c)
           in if after \<noteq> [] then Some after
              else (case rest of
                      [] \<Rightarrow> None
                    | n # _ \<Rightarrow>
                        if \<not> endswith n [58] then Some (strip n)
                        else extract_reference upper rest)))"

text \<open>
  Upper-casing keeps the positions of a chunk when the upper-cased form of every
  suffix is the suffix of the upper-cased form. This holds for a chunk whose
  characters each upper-case to one character.
\<close>

definition aligned :: "(ustring \<Rightarrow> ustring) \<Rightarrow> ustring \<Rightarrow> bool" where
  "aligned upper c = (\<forall>k. upper (drop k c) = drop k (upper c))"

lemma find_from_first_at:
  "find_from i s sub = (case first_at s sub of None \<Rightarrow> - 1 | Some k \<Rightarrow> int (i + k))"
  by (induction s arbitrary: i) (auto split: option.splits)

lemma contains_first_at: "contains s sub = (first_at s sub \<noteq> None)"
  by (induction s) (auto simp: startswith_def)

lemma aligned_tl: "aligned upper (x # xs) \<Longrightarrow> aligned upper xs"
proof -
  assume a: "aligned upper (x # xs)"
  have "upper (drop k xs) = drop k (upper xs)" for k
  proof -
    have "upper (drop k xs) = upper (drop (Suc k) (x # xs))" by simp
    also have "\<dots> = drop (Suc k) (upper (x # xs))" using a by (simp only: aligned_def)
    also have "\<dots> = drop k (drop 1 (upper (x # xs)))" by simp
    also have "drop 1 (upper (x # xs)) = upper (drop 1 (x # xs))"
      using a by (simp only: aligned_def)
    finally show ?thesis by simp
  qed
  then show ?thesis by (simp add: aligned_def)
qed

lemma aligned_upper_tl: "aligned upper (x # xs) \<Longrightarrow> upper xs = drop 1 (upper (x # xs))"
proof -
  assume "aligned upper (x # xs)"
  then have "upper (drop 1 (x # xs)) = drop 1 (upper (x # xs))" by (simp only: aligned_def)
  then show ?thesis by simp
qed

lemma aligned_upper_Nil: "aligned upper c \<Longrightarrow> upper [] = []"
proof -
  assume "aligned upper c"
  then have "upper (drop (length c + length (upper c)) c) = drop (length c + length (upper c)) (upper c)"
    by (simp only: aligned_def)
  then show ?thesis by simp
qed

lemma first_at_marker_position:
  "aligned upper c \<Longrightarrow> first_at (upper c) PREDAL = marker_position upper c"
proof (induction c)
  case Nil
  then have "upper [] = []" by (rule aligned_upper_Nil)
  then show ?case by (simp add: PREDAL_def startswith_def)
next
  case (Cons x xs)
  have tl: "upper xs = drop 1 (upper (x # xs))" by (rule aligned_upper_tl [OF Cons.prems])
  have ih: "first_at (upper xs) PREDAL = marker_position upper xs"
    by (rule Cons.IH [OF aligned_tl [OF Cons.prems]])
  show ?case
  proof (cases "upper (x # xs)")
    case Nil
    with tl have "upper xs = []" by simp
    with ih have "marker_position upper xs = None" by (simp add: PREDAL_def)
    with Nil show ?thesis by (simp add: PREDAL_def startswith_def)
  next
    case (Cons y ys)
    with tl have "upper xs = ys" by simp
    with ih Cons show ?thesis by simp
  qed
qed

lemma extract_loop_reference:
  assumes "\<forall>c \<in> set chunks. c \<noteq> [] \<and> strip c = c" and "\<forall>c \<in> set chunks. aligned upper c"
  shows "drop i chunks = suf \<Longrightarrow>
         predal_loop upper chunks i (map upper suf) = extract_reference upper suf"
proof (induction suf arbitrary: i)
  case Nil
  show ?case by simp
next
  case (Cons c rest)
  have i: "i < length chunks" using Cons.prems by (metis drop_all list.distinct(1) not_le)
  have ci: "chunks ! i = c" using Cons.prems i by (metis hd_drop_conv_nth list.sel(1))
  have dr: "drop (i + 1) chunks = rest" using Cons.prems by (metis Suc_eq_plus1 drop_Suc list.sel(3) tl_drop)
  have cm: "c \<in> set chunks" using ci i by (metis nth_mem)
  have al: "aligned upper c" using assms(2) cm by blast
  have pos: "first_at (upper c) PREDAL = marker_position upper c"
    by (rule first_at_marker_position [OF al])
  have ih: "predal_loop upper chunks (i + 1) (map upper rest) = extract_reference upper rest"
    by (rule Cons.IH [OF dr])
  have len: "(i + 1 < length chunks) = (rest \<noteq> [])" using dr i by (metis Suc_eq_plus1 drop_eq_Nil not_le)
  show ?case
  proof (cases "marker_position upper c")
    case None
    with pos ih show ?thesis by (simp add: contains_first_at)
  next
    case (Some k)
    have f: "str_find (upper c) PREDAL = int k"
      using pos Some by (simp add: str_find_def find_from_first_at)
    have sl: "slice_from c (int k + int (length PREDAL)) = drop (k + length PREDAL) c"
      by (simp add: slice_from_def nat_add_distrib)
    show ?thesis
    proof (cases rest)
      case Nil
      with pos Some ih ci f sl len show ?thesis
        by (simp add: contains_first_at Let_def)
    next
      case (Cons n rest')
      have ni: "chunks ! (i + 1) = n" using dr Cons len by (metis hd_drop_conv_nth list.sel(1) list.distinct(1))
      have "n \<in> set chunks" using ni len Cons by (metis list.distinct(1) nth_mem)
      then have tn: "n \<noteq> [] \<and> strip n = n" using assms(1) by blast
      with pos Some ih ci f sl len Cons ni show ?thesis
        by (simp add: contains_first_at Let_def)
    qed
  qed
qed

text \<open>
  On chunks that are non-empty and trimmed, and whose positions upper-casing keeps,
  the extractor returns what the specification says.
\<close>

lemma extract_predal_reference_when_aligned:
  assumes "\<forall>c \<in> set chunks. c \<noteq> [] \<and> strip c = c" and "\<forall>c \<in> set chunks. aligned upper c"
  shows "extract_predal_from_chunks upper chunks = extract_reference upper chunks"
  using extract_loop_reference [OF assms, of 0 chunks]
  by (simp add: extract_predal_from_chunks_def)

lemma concat_map_single:
  "\<forall>x \<in> set c. length (f x) = 1 \<Longrightarrow> concat (map f c) = map (\<lambda>x. hd (f x)) c"
proof (induction c)
  case Nil
  show ?case by simp
next
  case (Cons x xs)
  have "length (f x) = 1" using Cons.prems by simp
  then have "f x = [hd (f x)]" by (cases "f x") simp_all
  with Cons show ?case by simp
qed

lemma aligned_upper_excerpt:
  assumes "\<forall>x \<in> set c. length (upper_cp x) = 1"
  shows "aligned upper_excerpt c"
proof -
  have "upper_excerpt (drop k c) = drop k (upper_excerpt c)" for k
  proof -
    have "\<forall>x \<in> set (drop k c). length (upper_cp x) = 1"
      using assms by (meson in_set_dropD)
    then show ?thesis
      by (simp add: upper_excerpt_def concat_map_single [OF assms] concat_map_single drop_map)
  qed
  then show ?thesis by (simp add: aligned_def)
qed

text \<open>An instance: a chunk with the marker in mixed case and a colon, then a name.\<close>

lemma extract_predal_reference_example:
  "extract_predal_from_chunks upper_excerpt
     [[1055, 1088, 1077, 1076, 1072, 1083, 58], [1048, 1074, 1072, 1085]]
   = extract_reference upper_excerpt
     [[1055, 1088, 1077, 1076, 1072, 1083, 58], [1048, 1074, 1072, 1085]]"
proof (rule extract_predal_reference_when_aligned)
  show "\<forall>c \<in> set [[1055, 1088, 1077, 1076, 1072, 1083, 58], [1048, 1074, 1072, 1085]].
      c \<noteq> [] \<and> strip c = c"
    by (simp add: strip_def is_space_def)
  show "\<forall>c \<in> set [[1055, 1088, 1077, 1076, 1072, 1083, 58], [1048, 1074, 1072, 1085]].
      aligned upper_excerpt c"
    by (auto intro!: aligned_upper_excerpt simp: upper_cp_def)
qed

text \<open>
  C1, at a chunk where upper-casing changes the length of the text before the marker.
  The chunk is U+00DF, the marker, \<open>x\<close>: it is non-empty and trimmed, its upper-cased
  form contains the marker, the marker stands at position 1 and the text after its
  end is \<open>x\<close>, which is what the specification returns. The index found in the
  upper-cased copy is 2, so the slice of the original starts past the \<open>x\<close>, is empty,
  and the extractor returns \<open>None\<close>. With three U+00DF before the marker and a name
  after it, the extractor returns the name without its first two letters.
\<close>

theorem extract_predal_upper_index_misaligned:
  "[223, 1055, 1056, 1045, 1044, 1040, 1051, 120] = [223] @ PREDAL @ [120] \<and>
   strip [223, 1055, 1056, 1045, 1044, 1040, 1051, 120]
     = [223, 1055, 1056, 1045, 1044, 1040, 1051, 120] \<and>
   contains (upper_excerpt [223, 1055, 1056, 1045, 1044, 1040, 1051, 120]) PREDAL \<and>
   str_find (upper_excerpt [223, 1055, 1056, 1045, 1044, 1040, 1051, 120]) PREDAL = 2 \<and>
   marker_position upper_excerpt [223, 1055, 1056, 1045, 1044, 1040, 1051, 120] = Some 1 \<and>
   extract_reference upper_excerpt [[223, 1055, 1056, 1045, 1044, 1040, 1051, 120]]
     = Some [120] \<and>
   extract_predal_from_chunks upper_excerpt
     [[223, 1055, 1056, 1045, 1044, 1040, 1051, 120]] = None \<and>
   extract_reference upper_excerpt
     [[223, 223, 223] @ PREDAL @ [32, 1048, 1074, 1072, 1085]] = Some [1048, 1074, 1072, 1085] \<and>
   extract_predal_from_chunks upper_excerpt
     [[223, 223, 223] @ PREDAL @ [32, 1048, 1074, 1072, 1085]] = Some [1072, 1085]"
  by code_simp

section \<open>Output rows and grouping by responsible person\<close>

text \<open>
  An output row is the tuple \<open>(number, predal, date_str, product, qty, link)\<close> that
  \<open>Worker.run\<close> builds and \<open>build_output\<close> reads; \<open>row[1]\<close> is \<open>predal\<close>.
\<close>

record output_row =
  number :: ustring
  predal :: ustring
  date_str :: ustring
  product :: ustring
  qty :: ustring
  link :: "ustring option"

text \<open>The sentinel name of \<open>build_output\<close>, U+041D U+0435 U+0438 U+0437 U+0432 U+0435 U+0441
  U+0442 U+0435 U+043D.\<close>

definition UNKNOWN :: ustring where
  "UNKNOWN = [1053, 1077, 1080, 1079, 1074, 1077, 1089, 1090, 1077, 1085]"

text \<open>
  The grouping loop of \<open>build_output\<close>. \<open>name\<close> is \<open>row[1].strip()\<close>, or the sentinel
  when that is empty. A name that is not yet a key of \<open>by_colleague\<close> gets an empty list
  and is appended to \<open>colleague_order\<close>; then the row is appended to the name's list.
\<close>

definition colleague_name :: "output_row \<Rightarrow> ustring" where
  "colleague_name row = (if strip (predal row) \<noteq> [] then strip (predal row) else UNKNOWN)"

definition group_step ::
  "ustring list \<times> (ustring \<rightharpoonup> output_row list) \<Rightarrow> output_row \<Rightarrow>
   ustring list \<times> (ustring \<rightharpoonup> output_row list)" where
  "group_step st row =
     (let colleague_order = fst st; by_colleague = snd st; name = colleague_name row
      in case by_colleague name of
           None \<Rightarrow> (colleague_order @ [name], by_colleague(name \<mapsto> [row]))
         | Some rs \<Rightarrow> (colleague_order, by_colleague(name \<mapsto> rs @ [row])))"

definition group_by_colleague ::
  "output_row list \<Rightarrow> ustring list \<times> (ustring \<rightharpoonup> output_row list)" where
  "group_by_colleague rows = foldl group_step ([], Map.empty) rows"

text \<open>The reference: the distinct elements of a list, each at its first occurrence.\<close>

definition first_appearance :: "'a list \<Rightarrow> 'a list" where
  "first_appearance xs = rev (remdups (rev xs))"

definition rows_of :: "ustring \<Rightarrow> output_row list \<Rightarrow> output_row list" where
  "rows_of name rows = filter (\<lambda>r. colleague_name r = name) rows"

lemma first_appearance_snoc:
  "first_appearance (xs @ [x]) =
     (if x \<in> set xs then first_appearance xs else first_appearance xs @ [x])"
  by (simp add: first_appearance_def)

lemma set_first_appearance: "set (first_appearance xs) = set xs"
  by (simp add: first_appearance_def)

lemma group_by_colleague_snoc:
  "group_by_colleague (rows @ [r]) = group_step (group_by_colleague rows) r"
  by (simp add: group_by_colleague_def)

lemma group_by_colleague_inv:
  "fst (group_by_colleague rows) = first_appearance (map colleague_name rows) \<and>
   snd (group_by_colleague rows) =
     (\<lambda>name. if name \<in> set (map colleague_name rows) then Some (rows_of name rows) else None)"
proof (induction rows rule: rev_induct)
  case Nil
  show ?case by (simp add: group_by_colleague_def first_appearance_def)
next
  case (snoc r rows)
  let ?n = "colleague_name r"
  show ?case
  proof (cases "?n \<in> set (map colleague_name rows)")
    case True
    with snoc show ?thesis
      by (auto simp: group_by_colleague_snoc group_step_def Let_def first_appearance_snoc
          rows_of_def fun_eq_iff)
  next
    case False
    then have "filter (\<lambda>ra. colleague_name ra = ?n) rows = []"
      by (simp add: filter_empty_conv) (metis imageI)
    with False snoc show ?thesis
      by (auto simp: group_by_colleague_snoc group_step_def Let_def first_appearance_snoc
          rows_of_def fun_eq_iff)
  qed
qed

text \<open>
  C6. For every sequence of output rows, \<open>colleague_order\<close> is the list of distinct
  names in the order of their first appearance; the group of a name holds exactly the
  rows with that name, in input order; every row's name is a group; and a row whose
  responsible value is empty or blank is in the group of the sentinel name, which is
  one of the groups of the output.
\<close>

theorem group_by_colleague_first_appearance:
  "fst (group_by_colleague rows) = first_appearance (map colleague_name rows) \<and>
   distinct (fst (group_by_colleague rows)) \<and>
   (\<forall>name. snd (group_by_colleague rows) name =
      (if name \<in> set (fst (group_by_colleague rows))
       then Some (filter (\<lambda>r. colleague_name r = name) rows) else None)) \<and>
   (\<forall>r \<in> set rows. colleague_name r \<in> set (fst (group_by_colleague rows))) \<and>
   (\<forall>r \<in> set rows. strip (predal r) = [] \<longrightarrow>
      UNKNOWN \<in> set (fst (group_by_colleague rows)) \<and>
      (\<exists>rs. snd (group_by_colleague rows) UNKNOWN = Some rs \<and> r \<in> set rs))"
  using group_by_colleague_inv [of rows]
  by (auto simp: set_first_appearance rows_of_def first_appearance_def colleague_name_def)


theorem group_by_colleague_first_appearance_witness:
  "fst (group_by_colleague
     [\<lparr>number = [49], predal = [66], date_str = [], product = [], qty = [], link = None\<rparr>,
      \<lparr>number = [50], predal = [32], date_str = [], product = [], qty = [], link = None\<rparr>,
      \<lparr>number = [51], predal = [65], date_str = [], product = [], qty = [], link = None\<rparr>,
      \<lparr>number = [52], predal = [32, 66], date_str = [], product = [], qty = [], link = None\<rparr>])
     = [[66], UNKNOWN, [65]] \<and>
   snd (group_by_colleague
     [\<lparr>number = [49], predal = [66], date_str = [], product = [], qty = [], link = None\<rparr>,
      \<lparr>number = [50], predal = [32], date_str = [], product = [], qty = [], link = None\<rparr>,
      \<lparr>number = [51], predal = [65], date_str = [], product = [], qty = [], link = None\<rparr>,
      \<lparr>number = [52], predal = [32, 66], date_str = [], product = [], qty = [], link = None\<rparr>])
     [66]
     = Some [\<lparr>number = [49], predal = [66], date_str = [], product = [], qty = [], link = None\<rparr>,
             \<lparr>number = [52], predal = [32, 66], date_str = [], product = [], qty = [], link = None\<rparr>] \<and>
   snd (group_by_colleague
     [\<lparr>number = [49], predal = [66], date_str = [], product = [], qty = [], link = None\<rparr>,
      \<lparr>number = [50], predal = [32], date_str = [], product = [], qty = [], link = None\<rparr>,
      \<lparr>number = [51], predal = [65], date_str = [], product = [], qty = [], link = None\<rparr>,
      \<lparr>number = [52], predal = [32, 66], date_str = [], product = [], qty = [], link = None\<rparr>])
     UNKNOWN
     = Some [\<lparr>number = [50], predal = [32], date_str = [], product = [], qty = [], link = None\<rparr>]"
  using group_by_colleague_first_appearance
    [of "[\<lparr>number = [49], predal = [66], date_str = [], product = [], qty = [], link = None\<rparr>,
      \<lparr>number = [50], predal = [32], date_str = [], product = [], qty = [], link = None\<rparr>,
      \<lparr>number = [51], predal = [65], date_str = [], product = [], qty = [], link = None\<rparr>,
      \<lparr>number = [52], predal = [32, 66], date_str = [], product = [], qty = [], link = None\<rparr>]"]
  by (simp add: first_appearance_def colleague_name_def strip_def is_space_def UNKNOWN_def)


section \<open>Quantities and product names\<close>

text \<open>
  \<open>s.replace(old, new)\<close>: the occurrences of \<open>old\<close> are replaced from left to right
  and do not overlap. With an empty \<open>old\<close>, \<open>new\<close> is put before every character and
  at the end.
\<close>

function replace :: "ustring \<Rightarrow> ustring \<Rightarrow> ustring \<Rightarrow> ustring" where
  "replace [] old new = (if old = [] then new else [])"
| "replace (x # xs) old new =
     (if old = [] then new @ concat (map (\<lambda>c. c # new) (x # xs))
      else if startswith (x # xs) old then new @ replace (drop (length old) (x # xs)) old new
      else x # replace xs old new)"
  by pat_completeness auto
termination
  by (relation "measure (\<lambda>(s, old, new). length s)") auto

declare replace.simps [simp del]

text \<open>
  \<open>parse_quantity\<close>. \<open>float(text)\<close> is the interpreter's parser, taken as the
  parameter \<open>float\<close>: it returns \<open>None\<close> where \<open>float\<close> raises \<open>ValueError\<close>, which
  is the only exception it raises on a string and the one the function catches.
\<close>

definition parse_quantity :: "(ustring \<Rightarrow> 'f option) \<Rightarrow> ustring \<Rightarrow> 'f option" where
  "parse_quantity float value =
     (let text = strip value
      in if text = [] then None
         else
           (let text = replace text [32] [];
                text = (if contains text [44] \<and> contains text [46] then replace text [44] []
                        else if contains text [44] then replace text [44] [46]
                        else text)
            in float text))"

text \<open>
  For evaluation on concrete inputs, \<open>float_decimal\<close> is \<open>float\<close> on plain decimal
  literals: an optional sign, ASCII digits and at most one point, with a digit on one
  side of it. The value is the exact rational, which for the literals used below is
  also the value of the binary float. Literals of other forms that \<open>float\<close> accepts
  (exponents, \<open>inf\<close>, \<open>nan\<close>, underscores, surrounding whitespace, other digits) are
  outside this excerpt.
\<close>

definition is_digit :: "nat \<Rightarrow> bool" where
  "is_digit c = (48 \<le> c \<and> c \<le> 57)"

definition digits_value :: "ustring \<Rightarrow> nat" where
  "digits_value ds = foldl (\<lambda>a c. 10 * a + (c - 48)) 0 ds"

definition float_decimal :: "ustring \<Rightarrow> rat option" where
  "float_decimal s =
     (let neg = (s \<noteq> [] \<and> hd s = 45);
          body = (if s \<noteq> [] \<and> (hd s = 45 \<or> hd s = 43) then tl s else s);
          ip = takeWhile is_digit body;
          rest = dropWhile is_digit body;
          fp = (if rest = [] then [] else tl rest);
          v = of_nat (digits_value ip) + of_nat (digits_value fp) / 10 ^ length fp
      in if (rest = [] \<or> hd rest = 46) \<and> list_all is_digit fp \<and> (ip \<noteq> [] \<or> fp \<noteq> [])
         then Some (if neg then - v else v)
         else None)"

lemma contains_single: "contains s [a] = (a \<in> set s)"
  by (induction s) (auto simp: startswith_def)

lemma replace_single_delete: "replace s [a] [] = filter (\<lambda>c. c \<noteq> a) s"
  by (induction s) (auto simp: startswith_def replace.simps)

lemma replace_single_map: "replace s [a] [b] = map (\<lambda>c. if c = a then b else c) s"
  by (induction s) (auto simp: startswith_def replace.simps)

lemma parse_quantity_structure:
  "parse_quantity float value =
     (let t = filter (\<lambda>c. c \<noteq> 32) (strip value)
      in if strip value = [] then None
         else if 44 \<in> set t \<and> 46 \<in> set t then float (filter (\<lambda>c. c \<noteq> 44) t)
         else if 44 \<in> set t then float (map (\<lambda>c. if c = 44 then 46 else c) t)
         else float t)"
  by (simp add: parse_quantity_def Let_def contains_single replace_single_delete
      replace_single_map)


lemma startswith_length: "startswith s p \<Longrightarrow> length p \<le> length s"
proof -
  assume "startswith s p"
  then have "length (take (length p) s) = length p" by (simp add: startswith_def)
  then show ?thesis by simp
qed

lemma replace_Cons_match:
  "old \<noteq> [] \<Longrightarrow> startswith (x # xs) old \<Longrightarrow>
   replace (x # xs) old new = new @ replace (drop (length old) (x # xs)) old new"
  by (simp add: replace.simps)

lemma replace_Cons_nomatch:
  "old \<noteq> [] \<Longrightarrow> \<not> startswith (x # xs) old \<Longrightarrow>
   replace (x # xs) old new = x # replace xs old new"
  by (simp add: replace.simps)

lemma replace_Nil: "old \<noteq> [] \<Longrightarrow> replace [] old new = []"
  by (simp add: replace.simps)

lemma replace_length_le:
  "old \<noteq> [] \<Longrightarrow> length new \<le> length old \<Longrightarrow> length (replace s old new) \<le> length s"
proof (induction s old new rule: replace.induct)
  case (1 old new)
  then show ?case by (simp add: replace_Nil)
next
  case (2 x xs old new)
  show ?case
  proof (cases "startswith (x # xs) old")
    case True
    have ih: "length (replace (drop (length old) (x # xs)) old new)
        \<le> length (drop (length old) (x # xs))"
      using 2(1) [OF 2(3) True 2(3) 2(4)] .
    have len: "length old \<le> length (x # xs)" by (rule startswith_length [OF True])
    have "length (replace (x # xs) old new)
        = length new + length (replace (drop (length old) (x # xs)) old new)"
      by (simp only: replace_Cons_match [OF 2(3) True] length_append)
    also have "\<dots> \<le> length old + (length (x # xs) - length old)"
      using ih 2(4) by simp
    also have "\<dots> = length (x # xs)" using len by arith
    finally show ?thesis .
  next
    case False
    have ih: "length (replace xs old new) \<le> length xs"
      using 2(2) [OF 2(3) False 2(3) 2(4)] .
    then show ?thesis by (simp add: replace_Cons_nomatch [OF 2(3) False])
  qed
qed

lemma replace_length_less:
  "old \<noteq> [] \<Longrightarrow> length new < length old \<Longrightarrow> contains s old \<Longrightarrow>
   length (replace s old new) < length s"
proof (induction s old new rule: replace.induct)
  case (1 old new)
  then show ?case by simp
next
  case (2 x xs old new)
  show ?case
  proof (cases "startswith (x # xs) old")
    case True
    have le: "length new \<le> length old" using 2(4) by arith
    have ih: "length (replace (drop (length old) (x # xs)) old new)
        \<le> length (drop (length old) (x # xs))"
      by (rule replace_length_le [OF 2(3) le])
    have len: "length old \<le> length (x # xs)" by (rule startswith_length [OF True])
    have "length (replace (x # xs) old new)
        = length new + length (replace (drop (length old) (x # xs)) old new)"
      by (simp only: replace_Cons_match [OF 2(3) True] length_append)
    also have "\<dots> < length old + (length (x # xs) - length old)"
      using ih 2(4) by simp
    also have "\<dots> = length (x # xs)" using len by arith
    finally show ?thesis .
  next
    case False
    with 2(5) have c: "contains xs old" by simp
    have ih: "length (replace xs old new) < length xs"
      using 2(2) [OF 2(3) False 2(3) 2(4) c] .
    then show ?thesis by (simp add: replace_Cons_nomatch [OF 2(3) False])
  qed
qed

text \<open>
  \<open>normalize_product\<close>: \<open>value.strip().lower()\<close>, then the loop
  \<open>while "  " in text: text = text.replace("  ", " ")\<close> on the two-space string.
\<close>

function collapse_spaces :: "ustring \<Rightarrow> ustring" where
  "collapse_spaces text =
     (if contains text [32, 32] then collapse_spaces (replace text [32, 32] [32]) else text)"
  by pat_completeness auto
termination
proof (relation "measure length")
  show "wf (measure length)" by simp
next
  fix t :: ustring
  assume "contains t [32, 32]"
  then have "length (replace t [32, 32] [32]) < length t"
    by (intro replace_length_less) simp_all
  then show "(replace t [32, 32] [32], t) \<in> measure length" by simp
qed

declare collapse_spaces.simps [simp del]

definition normalize_product :: "(ustring \<Rightarrow> ustring) \<Rightarrow> ustring \<Rightarrow> ustring" where
  "normalize_product lower value = collapse_spaces (lower (strip value))"

text \<open>The reference: one left-to-right pass that drops every space that follows a
  space, so that each run of U+0020 becomes a single one.\<close>

fun squeeze_spaces :: "ustring \<Rightarrow> ustring" where
  "squeeze_spaces (a # b # s) =
     (if a = 32 \<and> b = 32 then squeeze_spaces (b # s) else a # squeeze_spaces (b # s))"
| "squeeze_spaces s = s"

lemma startswith_pair [simp]:
  "startswith (a # b # s) [x, y] = (a = x \<and> b = y)"
  "startswith [a] [x, y] = False"
  "startswith [] [x, y] = False"
  by (simp_all add: startswith_def)

lemma replace_pair_simps:
  "replace [] [32, 32] [32] = []"
  "replace [x] [32, 32] [32] = [x]"
  "replace (32 # 32 # t) [32, 32] [32] = 32 # replace t [32, 32] [32]"
  "\<not> (x = 32 \<and> y = 32) \<Longrightarrow>
     replace (x # y # t) [32, 32] [32] = x # replace (y # t) [32, 32] [32]"
  by (auto simp: replace.simps)

lemma squeeze_replace_cons:
  "squeeze_spaces (c # replace s [32, 32] [32]) = squeeze_spaces (c # s)"
proof (induction s arbitrary: c rule: measure_induct_rule [of length])
  case (less s)
  show ?case
  proof (cases s)
    case Nil
    then show ?thesis by (simp add: replace_pair_simps)
  next
    case (Cons x s1)
    note s = this
    show ?thesis
    proof (cases s1)
      case Nil
      with s show ?thesis by (simp add: replace_pair_simps)
    next
      case (Cons y t)
      show ?thesis
      proof (cases "x = 32 \<and> y = 32")
        case True
        have "squeeze_spaces (32 # replace t [32, 32] [32]) = squeeze_spaces (32 # t)"
          using less [of t 32] s Cons by simp
        with True s Cons show ?thesis
          by (simp add: replace_pair_simps)
      next
        case False
        have "squeeze_spaces (x # replace (y # t) [32, 32] [32]) = squeeze_spaces (x # y # t)"
          using less [of "y # t" x] s Cons by simp
        with False s Cons show ?thesis
          by (auto simp: replace_pair_simps(4) [OF False])
      qed
    qed
  qed
qed

lemma squeeze_replace:
  "squeeze_spaces (replace s [32, 32] [32]) = squeeze_spaces s"
proof (cases s)
  case Nil
  then show ?thesis by (simp add: replace_pair_simps)
next
  case (Cons x s1)
  note s = this
  show ?thesis
  proof (cases s1)
    case Nil
    with s show ?thesis by (simp add: replace_pair_simps)
  next
    case (Cons y t)
    show ?thesis
    proof (cases "x = 32 \<and> y = 32")
      case True
      with s Cons squeeze_replace_cons [of 32 t] show ?thesis
        by (simp add: replace_pair_simps)
    next
      case False
      with s Cons squeeze_replace_cons [of x "y # t"] show ?thesis
        by (simp add: replace_pair_simps(4) [OF False])
    qed
  qed
qed

lemma squeeze_no_pair: "\<not> contains s [32, 32] \<Longrightarrow> squeeze_spaces s = s"
proof (induction s rule: squeeze_spaces.induct)
  case (1 a b s)
  then show ?case by (cases "a = 32 \<and> b = 32") auto
qed simp_all

lemma collapse_spaces_squeeze: "collapse_spaces s = squeeze_spaces s"
proof (induction s rule: collapse_spaces.induct)
  case (1 t)
  show ?case
  proof (cases "contains t [32, 32]")
    case True
    with 1 show ?thesis
      by (simp add: collapse_spaces.simps [of t] squeeze_replace)
  next
    case False
    then show ?thesis
      by (simp add: collapse_spaces.simps [of t] squeeze_no_pair)
  qed
qed

lemma collapse_spaces_no_pair: "\<not> contains (collapse_spaces s) [32, 32]"
proof (induction s rule: collapse_spaces.induct)
  case (1 t)
  then show ?case
    by (cases "contains t [32, 32]") (simp_all add: collapse_spaces.simps [of t])
qed


section \<open>The summary table\<close>

text \<open>The catalog names are ASCII; \<open>ascii\<close> gives the code points of a literal.\<close>

definition ascii :: "string \<Rightarrow> ustring" where
  "ascii s = map of_char s"

definition PRODUCT_ORDER :: "ustring list" where
  "PRODUCT_ORDER =
     [
      ascii ''PAZ X-Freeze'',
      ascii ''PAZ X-Freeze +'',
      ascii ''PAZ Cool Mint'',
      ascii ''PAZ Cool mint +'',
      ascii ''PAZ Lush ice'',
      ascii ''PAZ Lush ice +'',
      ascii ''PAZ Mango'',
      ascii ''PAZ Mango winter +'',
      ascii ''PAZ Berry frost'',
      ascii ''PAZ Berry frost +'',
      ascii ''V&YOU Boost+ Cool Berry'',
      ascii ''V&YOU Boost+ Intense Mint'',
      ascii ''V&YOU Boost+ Fresh Citrus'',
      ascii ''V&YOU Boost+ Blueberry Ice'',
      ascii ''V&YOU Boost+ Spearmint'',
      ascii ''V&YOU Boost+ Grape soda'',
      ascii ''V&YOU Boost+ Berry Fizz'',
      ascii ''V&YOU Boost+ Mint Freeze'',
      ascii ''V&YOU Boost+ Berry Kiwi rush'',
      ascii ''V&YOU Boost+ Tropical fusion'',
      ascii ''V&YOU Boost Max Frostbite'',
      ascii ''V&YOU Boost Max Frutti Blast'',
      ascii ''V&YOU Boost Max Savage mango'',
      ascii ''01 Riot Kit Cherry cola'',
      ascii ''02 Riot Kit Pink lemonade'',
      ascii ''03 Riot Kit Mango peach pineapple'',
      ascii ''04 Riot Kit Grape ice'',
      ascii ''05 Riot Kit Blueberry sour raspberry'',
      ascii ''01 Riot Capsule Cherry cola'',
      ascii ''02 Riot Capsule Pink lemonade'',
      ascii ''03 Riot Capsule Mango peach pineapple'',
      ascii ''04 Riot Capsule Grape ice'',
      ascii ''05 Riot Capsule Blueberry sour raspberry'',
      ascii ''06 Riot Capsule Strawberry blueberry ice'',
      ascii ''07 Riot Capsule Blue cherry burst'',
      ascii ''08 Riot Capsule Classic tobacoo'',
      ascii ''09 Riot Capsule Banana Ice'',
      ascii ''10 Riot Capsule Lime'',
      ascii ''11 Riot Capsule Strawberry Kiwi Apple'',
      ascii ''12 Riot Capsule Triple Mint''
     ]"

text \<open>\<open>xs[lo:hi]\<close> for bounds that are not negative.\<close>

definition slice :: "'a list \<Rightarrow> nat \<Rightarrow> nat \<Rightarrow> 'a list" where
  "slice xs lo hi = drop lo (take hi xs)"

definition BRAND_BOUNDARIES :: "(ustring \<times> ustring) list" where
  "BRAND_BOUNDARIES =
     [(ascii ''PAZ Berry frost +'', ascii ''PAZ''),
      (ascii ''V&YOU Boost Max Savage mango'', ascii ''V&YOU''),
      (ascii ''05 Riot Kit Blueberry sour raspberry'', ascii ''RIOT Kit''),
      (ascii ''12 Riot Capsule Triple Mint'', ascii ''RIOT Capsule'')]"

definition BRAND_PRODUCTS :: "(ustring \<times> ustring list) list" where
  "BRAND_PRODUCTS =
     [(ascii ''PAZ'', slice PRODUCT_ORDER 0 10),
      (ascii ''V&YOU'', slice PRODUCT_ORDER 10 23),
      (ascii ''RIOT Kit'', slice PRODUCT_ORDER 23 28),
      (ascii ''RIOT Capsule'', slice PRODUCT_ORDER 28 40)]"


text \<open>
  \<open>BRAND_PRODUCTS[brand]\<close> raises \<open>KeyError\<close> for a brand that is not a key; the other
  dictionary reads of \<open>build_summary_for_colleague\<close> are guarded by a membership test
  or are \<open>dict.get\<close> with a default.
\<close>

datatype py_error = KeyError

text \<open>
  The totals are Python floats. Their operations are parameters: \<open>float_of_str\<close> is
  \<open>float(text)\<close>, \<open>float_add\<close> is \<open>+\<close>, \<open>float_zero\<close> is \<open>0.0\<close>, \<open>float_sum\<close> is the
  built-in \<open>sum\<close> over a sequence of floats, \<open>float_is_integer\<close> and \<open>float_to_int\<close>
  are \<open>value.is_integer()\<close> and \<open>int(value)\<close>. No law is assumed of them, so the
  theorems hold for binary floating point with its rounding. \<open>exact_floats\<close> is the
  instance with exact rational arithmetic, for evaluation on concrete inputs.
\<close>

record 'f float_ops =
  float_of_str :: "ustring \<Rightarrow> 'f option"
  float_add :: "'f \<Rightarrow> 'f \<Rightarrow> 'f"
  float_zero :: 'f
  float_sum :: "'f list \<Rightarrow> 'f"
  float_is_integer :: "'f \<Rightarrow> bool"
  float_to_int :: "'f \<Rightarrow> int"

definition exact_floats :: "rat float_ops" where
  "exact_floats =
     \<lparr>float_of_str = float_decimal,
      float_add = (\<lambda>a b. a + b),
      float_zero = 0,
      float_sum = (\<lambda>xs. foldl (\<lambda>a b. a + b) 0 xs),
      float_is_integer = (\<lambda>v. of_int \<lfloor>v\<rfloor> = v),
      float_to_int = (\<lambda>v. if v < 0 then - \<lfloor>- v\<rfloor> else \<lfloor>v\<rfloor>)\<rparr>"

text \<open>\<open>format_num\<close> returns an \<open>int\<close> or leaves the float.\<close>

datatype 'f cell = IntCell int | FloatCell 'f

definition format_num :: "'f float_ops \<Rightarrow> 'f \<Rightarrow> 'f cell" where
  "format_num F v = (if float_is_integer F v then IntCell (float_to_int F v) else FloatCell v)"

text \<open>The dictionary comprehension
  \<open>{normalize_product(p): p for p in PRODUCT_ORDER}\<close>: a later entry with the same key
  replaces an earlier one.\<close>

definition product_map :: "(ustring \<Rightarrow> ustring) \<Rightarrow> (ustring \<rightharpoonup> ustring)" where
  "product_map lower =
     foldl (\<lambda>m p. m(normalize_product lower p \<mapsto> p)) Map.empty PRODUCT_ORDER"

text \<open>
  The first loop of \<open>build_summary_for_colleague\<close>, over the rows of the group, with its
  state \<open>totals\<close> and \<open>date_set\<close>. \<open>totals_get\<close> is \<open>totals.get(key, 0.0)\<close>. The two
  \<open>continue\<close> statements are the \<open>None\<close> branches.
\<close>

record 'f summary_acc =
  totals :: "ustring \<times> ustring \<rightharpoonup> 'f"
  date_set :: "ustring set"

definition totals_get :: "'f float_ops \<Rightarrow> (ustring \<times> ustring \<rightharpoonup> 'f) \<Rightarrow> ustring \<times> ustring \<Rightarrow> 'f" where
  "totals_get F t key = (case t key of None \<Rightarrow> float_zero F | Some v \<Rightarrow> v)"

definition summary_step ::
  "'f float_ops \<Rightarrow> (ustring \<Rightarrow> ustring) \<Rightarrow> (ustring \<rightharpoonup> ustring) \<Rightarrow>
   'f summary_acc \<Rightarrow> output_row \<Rightarrow> 'f summary_acc" where
  "summary_step F lower pm acc row =
     (let acc1 = (if date_str row \<noteq> []
                  then acc\<lparr>date_set := insert (date_str row) (date_set acc)\<rparr> else acc);
          prod_key = normalize_product lower (product row)
      in case pm prod_key of
           None \<Rightarrow> acc1
         | Some prd \<Rightarrow>
             (case parse_quantity (float_of_str F) (qty row) of
                None \<Rightarrow> acc1
              | Some amount \<Rightarrow>
                  (let key = (prd, if date_str row \<noteq> [] then date_str row else [])
                   in acc1\<lparr>totals := (totals acc1)
                        (key \<mapsto> float_add F (totals_get F (totals acc1) key) amount)\<rparr>)))"

definition accumulate_rows ::
  "'f float_ops \<Rightarrow> (ustring \<Rightarrow> ustring) \<Rightarrow> output_row list \<Rightarrow> 'f summary_acc" where
  "accumulate_rows F lower rows =
     foldl (summary_step F lower (product_map lower)) \<lparr>totals = Map.empty, date_set = {}\<rparr> rows"

text \<open>The placeholder header, U+0414 U+0430 U+0442 U+0430.\<close>

definition DATE_PLACEHOLDER :: ustring where
  "DATE_PLACEHOLDER = [1044, 1072, 1090, 1072]"

text \<open>
  The second loop, over \<open>PRODUCT_ORDER\<close>: the row of the product, then the subtotal row
  with the empty label when the product is a key of \<open>BRAND_BOUNDARIES\<close>.
\<close>

definition totals_for_products ::
  "'f float_ops \<Rightarrow> (ustring \<times> ustring \<rightharpoonup> 'f) \<Rightarrow> ustring list \<Rightarrow> ustring list \<Rightarrow> 'f list" where
  "totals_for_products F t date_headers products =
     map (\<lambda>date_val. float_sum F (map (\<lambda>p. totals_get F t (p, date_val)) products)) date_headers"

definition rows_for_product ::
  "'f float_ops \<Rightarrow> (ustring \<times> ustring \<rightharpoonup> 'f) \<Rightarrow> ustring list \<Rightarrow> ustring \<Rightarrow>
   py_error + (ustring \<times> 'f cell list) list" where
  "rows_for_product F t date_headers prd =
     (let row_totals = map (\<lambda>date_val. format_num F (totals_get F t (prd, date_val))) date_headers
      in case map_of BRAND_BOUNDARIES prd of
           None \<Rightarrow> Inr [(prd, row_totals)]
         | Some brand \<Rightarrow>
             (case map_of BRAND_PRODUCTS brand of
                None \<Rightarrow> Inl KeyError
              | Some products \<Rightarrow>
                  Inr [(prd, row_totals),
                       ([], map (format_num F) (totals_for_products F t date_headers products))]))"

fun summary_loop ::
  "'f float_ops \<Rightarrow> (ustring \<times> ustring \<rightharpoonup> 'f) \<Rightarrow> ustring list \<Rightarrow> ustring list \<Rightarrow>
   (ustring \<times> 'f cell list) list \<Rightarrow> py_error + (ustring \<times> 'f cell list) list" where
  "summary_loop F t date_headers [] summary_rows = Inr summary_rows"
| "summary_loop F t date_headers (prd # rest) summary_rows =
     (case rows_for_product F t date_headers prd of
        Inl e \<Rightarrow> Inl e
      | Inr rs \<Rightarrow> summary_loop F t date_headers rest (summary_rows @ rs))"

definition build_summary_for_colleague ::
  "'f float_ops \<Rightarrow> (ustring \<Rightarrow> ustring) \<Rightarrow> output_row list \<Rightarrow>
   py_error + (ustring list \<times> (ustring \<times> 'f cell list) list)" where
  "build_summary_for_colleague F lower rows =
     (let acc = accumulate_rows F lower rows;
          date_headers = sorted_list_of_set (date_set acc);
          date_headers = (if date_headers = [] then [DATE_PLACEHOLDER] else date_headers)
      in case summary_loop F (totals acc) date_headers PRODUCT_ORDER [] of
           Inl e \<Rightarrow> Inl e
         | Inr summary_rows \<Rightarrow> Inr (date_headers, summary_rows))"

section \<open>Properties of the summary table\<close>

text \<open>The amounts that the rows of a group add to the key \<open>(p, d)\<close>, in row order.\<close>

definition amount_list :: "'f float_ops \<Rightarrow> ustring \<Rightarrow> 'f list" where
  "amount_list F q = (case parse_quantity (float_of_str F) q of None \<Rightarrow> [] | Some a \<Rightarrow> [a])"

definition mapped_amounts ::
  "'f float_ops \<Rightarrow> (ustring \<Rightarrow> ustring) \<Rightarrow> output_row list \<Rightarrow> ustring \<Rightarrow> ustring \<Rightarrow> 'f list" where
  "mapped_amounts F lower rows p d =
     concat (map (\<lambda>r. if product_map lower (normalize_product lower (product r)) = Some p \<and>
                           date_str r = d
                        then amount_list F (qty r) else []) rows)"

lemma foldl_update_map_of:
  "foldl (\<lambda>m p. m(f p \<mapsto> p)) m ps = m ++ map_of (rev (map (\<lambda>p. (f p, p)) ps))"
proof (induction ps arbitrary: m)
  case Nil
  show ?case by simp
next
  case (Cons p ps)
  have "foldl (\<lambda>m p. m(f p \<mapsto> p)) m (p # ps) = foldl (\<lambda>m p. m(f p \<mapsto> p)) (m(f p \<mapsto> p)) ps"
    by (simp only: foldl_Cons)
  also have "\<dots> = m(f p \<mapsto> p) ++ map_of (rev (map (\<lambda>p. (f p, p)) ps))"
    by (rule Cons.IH)
  also have "\<dots> = m ++ map_of (rev (map (\<lambda>p. (f p, p)) (p # ps)))"
    by (simp add: map_of_append map_add_assoc [symmetric] del: fun_upd_apply)
  finally show ?case .
qed

lemma product_map_map_of:
  "product_map lower = map_of (rev (map (\<lambda>p. (normalize_product lower p, p)) PRODUCT_ORDER))"
  by (simp add: product_map_def foldl_update_map_of)

lemma product_map_SomeD:
  "product_map lower k = Some p \<Longrightarrow> p \<in> set PRODUCT_ORDER \<and> normalize_product lower p = k"
  by (auto simp: product_map_map_of dest!: map_of_SomeD)

lemma product_map_Some_iff:
  assumes "distinct (map (normalize_product lower) PRODUCT_ORDER)"
  shows "(product_map lower k = Some p) = (p \<in> set PRODUCT_ORDER \<and> normalize_product lower p = k)"
proof -
  have "distinct (map fst (rev (map (\<lambda>p. (normalize_product lower p, p)) PRODUCT_ORDER)))"
    using assms by (simp add: rev_map [symmetric] comp_def)
  then show ?thesis
    by (auto simp: product_map_map_of)
qed

lemma accumulate_rows_snoc:
  "accumulate_rows F lower (rows @ [r]) =
     summary_step F lower (product_map lower) (accumulate_rows F lower rows) r"
  by (simp add: accumulate_rows_def)

lemma accumulate_rows_date_set:
  "date_set (accumulate_rows F lower rows) = {d \<in> set (map date_str rows). d \<noteq> []}"
proof (induction rows rule: rev_induct)
  case Nil
  show ?case by (simp add: accumulate_rows_def)
next
  case (snoc r rows)
  then show ?case
    by (auto simp: accumulate_rows_snoc summary_step_def Let_def split: option.splits)
qed

lemma accumulate_rows_totals:
  "totals_get F (totals (accumulate_rows F lower rows)) (p, d) =
     foldl (float_add F) (float_zero F) (mapped_amounts F lower rows p d)"
proof (induction rows rule: rev_induct)
  case Nil
  show ?case by (simp add: accumulate_rows_def totals_get_def mapped_amounts_def)
next
  case (snoc r rows)
  then show ?case
    by (auto simp: accumulate_rows_snoc summary_step_def Let_def totals_get_def
        mapped_amounts_def amount_list_def split: option.splits)
qed


text \<open>
  \<open>per_product_total\<close> is the entry of \<open>totals\<close> after the first loop, read with
  \<open>totals.get\<close>; \<open>brand_group\<close> is \<open>BRAND_PRODUCTS[brand]\<close>. \<open>summary_block\<close> is what
  the table holds for one catalog product: its row and, for a boundary product, the
  subtotal row of its brand.
\<close>

definition per_product_total ::
  "'f float_ops \<Rightarrow> (ustring \<Rightarrow> ustring) \<Rightarrow> output_row list \<Rightarrow> ustring \<Rightarrow> ustring \<Rightarrow> 'f" where
  "per_product_total F lower rows p d =
     totals_get F (totals (accumulate_rows F lower rows)) (p, d)"

definition brand_group :: "ustring \<Rightarrow> ustring list" where
  "brand_group brand = (case map_of BRAND_PRODUCTS brand of None \<Rightarrow> [] | Some ps \<Rightarrow> ps)"

definition summary_block ::
  "'f float_ops \<Rightarrow> (ustring \<Rightarrow> ustring \<Rightarrow> 'f) \<Rightarrow> ustring list \<Rightarrow> ustring \<Rightarrow>
   (ustring \<times> 'f cell list) list" where
  "summary_block F tot hdrs p =
     (p, map (\<lambda>d. format_num F (tot p d)) hdrs) #
     (case map_of BRAND_BOUNDARIES p of
        None \<Rightarrow> []
      | Some brand \<Rightarrow>
          [([], map (\<lambda>d. format_num F (float_sum F (map (\<lambda>q. tot q d) (brand_group brand))))
                  hdrs)])"

text \<open>
  The reference definition of the summary: the columns are the distinct non-empty dates
  of the group in ascending order, or the placeholder; the cell of a catalog product
  and a column accumulates, from \<open>0.0\<close> and in row order, the parsed quantities of the
  rows whose normalized product is that of the catalog entry and whose date is the
  column.
\<close>

definition reference_headers :: "output_row list \<Rightarrow> ustring list" where
  "reference_headers rows =
     (let ds = sort (remdups (filter (\<lambda>d. d \<noteq> []) (map date_str rows)))
      in if ds = [] then [DATE_PLACEHOLDER] else ds)"

definition reference_amounts ::
  "'f float_ops \<Rightarrow> (ustring \<Rightarrow> ustring) \<Rightarrow> output_row list \<Rightarrow> ustring \<Rightarrow> ustring \<Rightarrow> 'f list" where
  "reference_amounts F lower rows p d =
     concat (map (\<lambda>r. if normalize_product lower (product r) = normalize_product lower p \<and>
                           date_str r = d
                        then amount_list F (qty r) else []) rows)"

definition reference_cell ::
  "'f float_ops \<Rightarrow> (ustring \<Rightarrow> ustring) \<Rightarrow> output_row list \<Rightarrow> ustring \<Rightarrow> ustring \<Rightarrow> 'f cell" where
  "reference_cell F lower rows p d =
     format_num F (foldl (float_add F) (float_zero F) (reference_amounts F lower rows p d))"

definition reference_product_rows ::
  "'f float_ops \<Rightarrow> (ustring \<Rightarrow> ustring) \<Rightarrow> output_row list \<Rightarrow> (ustring \<times> 'f cell list) list" where
  "reference_product_rows F lower rows =
     map (\<lambda>p. (p, map (reference_cell F lower rows p) (reference_headers rows))) PRODUCT_ORDER"

lemma brand_boundaries_cases:
  "map_of BRAND_BOUNDARIES p = Some b \<Longrightarrow>
     b = ascii ''PAZ'' \<or> b = ascii ''V&YOU'' \<or> b = ascii ''RIOT Kit'' \<or> b = ascii ''RIOT Capsule''"
  by (auto simp: BRAND_BOUNDARIES_def split: if_splits)

lemma brand_products_defined:
  "map_of BRAND_BOUNDARIES p = Some b \<Longrightarrow> map_of BRAND_PRODUCTS b = Some (brand_group b)"
  by (drule brand_boundaries_cases) (auto simp: brand_group_def BRAND_PRODUCTS_def ascii_def)

lemma rows_for_product_block:
  "rows_for_product F t hdrs p = Inr (summary_block F (\<lambda>p d. totals_get F t (p, d)) hdrs p)"
  by (auto simp: rows_for_product_def summary_block_def totals_for_products_def Let_def
      comp_def brand_products_defined split: option.splits)

lemma summary_loop_blocks:
  "summary_loop F t hdrs ps acc =
     Inr (acc @ concat (map (summary_block F (\<lambda>p d. totals_get F t (p, d)) hdrs) ps))"
  by (induction ps arbitrary: acc) (simp_all add: rows_for_product_block)

lemma headers_reference:
  "(let date_headers = sorted_list_of_set (date_set (accumulate_rows F lower rows))
    in if date_headers = [] then [DATE_PLACEHOLDER] else date_headers) = reference_headers rows"
proof -
  have "{d \<in> set (map date_str rows). d \<noteq> []} = set (filter (\<lambda>d. d \<noteq> []) (map date_str rows))"
    by auto
  then show ?thesis
    by (simp only: accumulate_rows_date_set reference_headers_def
        sorted_list_of_set_sort_remdups)
qed

lemma build_summary_blocks:
  "build_summary_for_colleague F lower rows =
     Inr (reference_headers rows,
          concat (map (summary_block F (per_product_total F lower rows) (reference_headers rows))
                    PRODUCT_ORDER))"
proof -
  have "build_summary_for_colleague F lower rows =
     (let date_headers = (let date_headers = sorted_list_of_set (date_set (accumulate_rows F lower rows))
         in if date_headers = [] then [DATE_PLACEHOLDER] else date_headers)
      in case summary_loop F (totals (accumulate_rows F lower rows)) date_headers PRODUCT_ORDER [] of
           Inl e \<Rightarrow> Inl e
         | Inr summary_rows \<Rightarrow> Inr (date_headers, summary_rows))"
    by (simp add: build_summary_for_colleague_def Let_def)
  also have "\<dots> = Inr (reference_headers rows,
          concat (map (summary_block F (per_product_total F lower rows) (reference_headers rows))
                    PRODUCT_ORDER))"
    unfolding headers_reference
    by (simp add: summary_loop_blocks per_product_total_def [abs_def] Let_def)
  finally show ?thesis .
qed


lemma catalog_labels_nonblank: "[] \<notin> set PRODUCT_ORDER"
  by (simp add: PRODUCT_ORDER_def ascii_def)

lemma catalog_normal_forms_distinct:
  "distinct (map (normalize_product lower_excerpt) PRODUCT_ORDER)"
  by code_simp

lemma filter_blocks:
  "[] \<notin> set ps \<Longrightarrow>
   filter (\<lambda>r. fst r \<noteq> []) (concat (map (summary_block F tot hdrs) ps)) =
     map (\<lambda>p. (p, map (\<lambda>d. format_num F (tot p d)) hdrs)) ps"
  by (induction ps) (auto simp: summary_block_def split: option.splits)

lemma mapped_amounts_reference:
  assumes "distinct (map (normalize_product lower) PRODUCT_ORDER)" and "p \<in> set PRODUCT_ORDER"
  shows "mapped_amounts F lower rows p d = reference_amounts F lower rows p d"
proof -
  have "\<And>k. (product_map lower k = Some p) = (k = normalize_product lower p)"
    using product_map_Some_iff [OF assms(1)] assms(2) by auto
  then show ?thesis
    by (simp add: mapped_amounts_def reference_amounts_def)
qed

lemma per_product_total_reference:
  assumes "distinct (map (normalize_product lower) PRODUCT_ORDER)" and "p \<in> set PRODUCT_ORDER"
  shows "format_num F (per_product_total F lower rows p d) = reference_cell F lower rows p d"
  by (simp add: per_product_total_def accumulate_rows_totals reference_cell_def
      mapped_amounts_reference [OF assms])

text \<open>
  C2. For every group of rows, the summary succeeds; its columns are the reference
  columns and its product rows (the rows with a non-empty label) are the reference
  rows, in catalog order. A row whose quantity does not parse, or whose normalized
  product is not that of a catalog entry, adds nothing to any cell. The hypothesis is
  that no two catalog names have the same normal form, which holds for the catalog
  under every case mapping that lower-cases ASCII letters as \<open>lower_excerpt\<close> does.
\<close>

theorem summary_equals_reference:
  assumes "distinct (map (normalize_product lower) PRODUCT_ORDER)"
  shows "(case build_summary_for_colleague F lower rows of
            Inl e \<Rightarrow> None
          | Inr (date_headers, summary_rows) \<Rightarrow>
              Some (date_headers, filter (\<lambda>r. fst r \<noteq> []) summary_rows))
         = Some (reference_headers rows, reference_product_rows F lower rows)"
  by (simp add: build_summary_blocks filter_blocks [OF catalog_labels_nonblank]
      reference_product_rows_def per_product_total_reference [OF assms])

text \<open>A group of five rows: two spellings of one catalog product on two dates, a second
  product, a quantity that does not parse and a product outside the catalog.\<close>

definition sample_rows :: "output_row list" where
  "sample_rows =
     [\<lparr>number = ascii ''1'', predal = ascii ''A'', date_str = ascii ''2024-01-02'',
        product = ascii ''paz  x-freeze'', qty = ascii ''3'', link = None\<rparr>,
      \<lparr>number = ascii ''2'', predal = ascii ''A'', date_str = ascii ''2024-01-01'',
        product = ascii ''PAZ X-Freeze'', qty = ascii ''2,5'', link = None\<rparr>,
      \<lparr>number = ascii ''3'', predal = ascii ''A'', date_str = ascii ''2024-01-02'',
        product = ascii ''PAZ Mango'', qty = ascii ''1 000'', link = None\<rparr>,
      \<lparr>number = ascii ''4'', predal = ascii ''A'', date_str = ascii ''2024-01-02'',
        product = ascii ''PAZ X-Freeze'', qty = ascii ''abc'', link = None\<rparr>,
      \<lparr>number = ascii ''5'', predal = ascii ''A'', date_str = ascii ''2024-01-02'',
        product = ascii ''Other'', qty = ascii ''1'', link = None\<rparr>]"

theorem summary_equals_reference_witness:
  "distinct (map (normalize_product lower_excerpt) PRODUCT_ORDER) \<and>
   (case build_summary_for_colleague exact_floats lower_excerpt sample_rows of
      Inl e \<Rightarrow> None
    | Inr (date_headers, summary_rows) \<Rightarrow>
        Some (date_headers, filter (\<lambda>r. fst r \<noteq> []) summary_rows))
     = Some (reference_headers sample_rows,
             reference_product_rows exact_floats lower_excerpt sample_rows) \<and>
   reference_headers sample_rows = [ascii ''2024-01-01'', ascii ''2024-01-02''] \<and>
   reference_cell exact_floats lower_excerpt sample_rows
     (ascii ''PAZ X-Freeze'') (ascii ''2024-01-01'') = FloatCell (5 / 2) \<and>
   reference_cell exact_floats lower_excerpt sample_rows
     (ascii ''PAZ X-Freeze'') (ascii ''2024-01-02'') = IntCell 3"
proof -
  have h: "reference_headers sample_rows = [ascii ''2024-01-01'', ascii ''2024-01-02'']"
    by code_simp
  have r1: "reference_cell exact_floats lower_excerpt sample_rows
     (ascii ''PAZ X-Freeze'') (ascii ''2024-01-01'') = FloatCell (5 / 2)"
    by code_simp
  have r2: "reference_cell exact_floats lower_excerpt sample_rows
     (ascii ''PAZ X-Freeze'') (ascii ''2024-01-02'') = IntCell 3"
    by code_simp
  from catalog_normal_forms_distinct
    summary_equals_reference [OF catalog_normal_forms_distinct, of exact_floats sample_rows] h r1 r2
  show ?thesis by (intro conjI)
qed

lemma labels_of_blocks:
  "map fst (concat (map (summary_block F tot hdrs) ps)) =
     concat (map (\<lambda>p. if p \<in> fst ` set BRAND_BOUNDARIES then [p, []] else [p]) ps)"
proof (induction ps)
  case Nil
  show ?case by simp
next
  case (Cons p ps)
  have "(map_of BRAND_BOUNDARIES p = None) = (p \<notin> fst ` set BRAND_BOUNDARIES)"
    by (simp add: map_of_eq_None_iff)
  with Cons show ?case
    by (auto simp: summary_block_def split: option.splits)
qed

lemma brand_groups_partition:
  "concat (map (\<lambda>(p, b). brand_group b) BRAND_BOUNDARIES) = PRODUCT_ORDER \<and>
   list_all (\<lambda>(p, b). brand_group b \<noteq> [] \<and> last (brand_group b) = p) BRAND_BOUNDARIES"
  by code_simp

text \<open>
  C3. In every summary table each catalog product contributes its block: its own row
  and, exactly when it is a key of \<open>BRAND_BOUNDARIES\<close>, one row with the empty label
  right after it. No catalog name is empty, so the rows with the empty label are the
  subtotal rows. Per date column the subtotal is \<open>format_num\<close> of the \<open>sum\<close> of the
  per-product totals over the products of the boundary's brand group. The four brand
  groups are consecutive ranges of the catalog and each boundary product is the last
  of its group.
\<close>

theorem brand_subtotal_rows:
  "build_summary_for_colleague F lower rows =
     Inr (reference_headers rows,
          concat (map (summary_block F (per_product_total F lower rows) (reference_headers rows))
                    PRODUCT_ORDER)) \<and>
   map fst (concat (map (summary_block F (per_product_total F lower rows) (reference_headers rows))
                      PRODUCT_ORDER)) =
     concat (map (\<lambda>p. if p \<in> fst ` set BRAND_BOUNDARIES then [p, []] else [p]) PRODUCT_ORDER) \<and>
   [] \<notin> set PRODUCT_ORDER \<and>
   concat (map (\<lambda>(p, b). brand_group b) BRAND_BOUNDARIES) = PRODUCT_ORDER \<and>
   list_all (\<lambda>(p, b). map_of BRAND_PRODUCTS b = Some (brand_group b) \<and>
                      brand_group b \<noteq> [] \<and> last (brand_group b) = p) BRAND_BOUNDARIES"
proof -
  have cfg: "list_all (\<lambda>(p, b). map_of BRAND_PRODUCTS b = Some (brand_group b) \<and>
                        brand_group b \<noteq> [] \<and> last (brand_group b) = p) BRAND_BOUNDARIES"
    by code_simp
  have p: "concat (map (\<lambda>(p, b). brand_group b) BRAND_BOUNDARIES) = PRODUCT_ORDER"
    using brand_groups_partition by (rule conjunct1)
  from build_summary_blocks labels_of_blocks catalog_labels_nonblank p cfg
  show ?thesis by (intro conjI)
qed

text \<open>A group of one row, of a product of the first brand.\<close>

definition one_row :: "output_row list" where
  "one_row =
     [\<lparr>number = ascii ''3'', predal = ascii ''A'', date_str = ascii ''2024-01-02'',
        product = ascii ''PAZ Mango'', qty = ascii ''1 000,5'', link = None\<rparr>]"

theorem brand_subtotal_rows_witness:
  "build_summary_for_colleague exact_floats lower_excerpt one_row =
     Inr (reference_headers one_row,
          concat (map (summary_block exact_floats
                         (per_product_total exact_floats lower_excerpt one_row)
                         (reference_headers one_row)) PRODUCT_ORDER)) \<and>
   reference_headers one_row = [ascii ''2024-01-02''] \<and>
   summary_block exact_floats (per_product_total exact_floats lower_excerpt one_row)
       [ascii ''2024-01-02''] (ascii ''PAZ Mango'')
     = [(ascii ''PAZ Mango'', [FloatCell (2001 / 2)])] \<and>
   summary_block exact_floats (per_product_total exact_floats lower_excerpt one_row)
       [ascii ''2024-01-02''] (ascii ''PAZ Berry frost +'')
     = [(ascii ''PAZ Berry frost +'', [IntCell 0]), ([], [FloatCell (2001 / 2)])]"
proof -
  have h: "reference_headers one_row = [ascii ''2024-01-02'']"
    by code_simp
  have b1: "summary_block exact_floats (per_product_total exact_floats lower_excerpt one_row)
       [ascii ''2024-01-02''] (ascii ''PAZ Mango'')
     = [(ascii ''PAZ Mango'', [FloatCell (2001 / 2)])]"
    by code_simp
  have b2: "summary_block exact_floats (per_product_total exact_floats lower_excerpt one_row)
       [ascii ''2024-01-02''] (ascii ''PAZ Berry frost +'')
     = [(ascii ''PAZ Berry frost +'', [IntCell 0]), ([], [FloatCell (2001 / 2)])]"
    by code_simp
  from brand_subtotal_rows [of exact_floats lower_excerpt one_row, THEN conjunct1] h b1 b2
  show ?thesis by (intro conjI)
qed

lemma summary_step_excluded:
  "parse_quantity (float_of_str F) (qty row) = None \<Longrightarrow>
   totals (summary_step F lower pm acc row) = totals acc"
  by (simp add: summary_step_def Let_def split: option.splits)

lemma summary_step_key:
  "totals (summary_step F lower pm acc row) key \<noteq> totals acc key \<Longrightarrow>
   pm (normalize_product lower (product row)) = Some (fst key)"
  by (auto simp: summary_step_def Let_def split: option.splits if_splits)

text \<open>
  C4. For every quantity string: an empty string after trimming gives no value;
  otherwise the spaces are removed, then with both a comma and a point every comma is
  removed, with a comma only every comma becomes a point, and the text is handed to
  \<open>float\<close>, whose failure gives no value. The four examples of the specification,
  first for every \<open>float\<close> and then with their values. A row whose quantity gives no
  value leaves the totals as they were.
\<close>

theorem parse_quantity_rules:
  "parse_quantity float value =
     (let t = filter (\<lambda>c. c \<noteq> 32) (strip value)
      in if strip value = [] then None
         else if 44 \<in> set t \<and> 46 \<in> set t then float (filter (\<lambda>c. c \<noteq> 44) t)
         else if 44 \<in> set t then float (map (\<lambda>c. if c = 44 then 46 else c) t)
         else float t) \<and>
   parse_quantity float (ascii ''1 234,5'') = float (ascii ''1234.5'') \<and>
   parse_quantity float (ascii ''10,5'') = float (ascii ''10.5'') \<and>
   parse_quantity float (ascii ''7'') = float (ascii ''7'') \<and>
   parse_quantity float (ascii ''abc'') = float (ascii ''abc'') \<and>
   parse_quantity float_decimal (ascii ''1 234,5'') = Some 1234.5 \<and>
   parse_quantity float_decimal (ascii ''10,5'') = Some 10.5 \<and>
   parse_quantity float_decimal (ascii ''7'') = Some 7 \<and>
   parse_quantity float_decimal (ascii ''abc'') = None \<and>
   (parse_quantity (float_of_str F) (qty row) = None \<longrightarrow>
      totals (summary_step F lower pm acc row) = totals acc)"
proof -
  have e1: "parse_quantity float (ascii ''1 234,5'') = float (ascii ''1234.5'')"
    by (simp add: parse_quantity_structure strip_def is_space_def ascii_def)
  have e2: "parse_quantity float (ascii ''10,5'') = float (ascii ''10.5'')"
    by (simp add: parse_quantity_structure strip_def is_space_def ascii_def)
  have e3: "parse_quantity float (ascii ''7'') = float (ascii ''7'')"
    by (simp add: parse_quantity_structure strip_def is_space_def ascii_def)
  have e4: "parse_quantity float (ascii ''abc'') = float (ascii ''abc'')"
    by (simp add: parse_quantity_structure strip_def is_space_def ascii_def)
  have d1: "parse_quantity float_decimal (ascii ''1 234,5'') = Some 1234.5" by code_simp
  have d2: "parse_quantity float_decimal (ascii ''10,5'') = Some 10.5" by code_simp
  have d3: "parse_quantity float_decimal (ascii ''7'') = Some 7" by code_simp
  have d4: "parse_quantity float_decimal (ascii ''abc'') = None" by code_simp
  have x: "parse_quantity (float_of_str F) (qty row) = None \<longrightarrow>
      totals (summary_step F lower pm acc row) = totals acc"
    by (simp add: summary_step_excluded)
  from parse_quantity_structure e1 e2 e3 e4 d1 d2 d3 d4 x show ?thesis by (intro conjI)
qed

theorem parse_quantity_rules_witness:
  "parse_quantity float_decimal (ascii '' 1 234,50 '') = Some 1234.5 \<and>
   parse_quantity (float_of_str exact_floats)
     (qty \<lparr>number = ascii ''4'', predal = ascii ''A'', date_str = ascii ''2024-01-02'',
            product = ascii ''PAZ X-Freeze'', qty = ascii ''abc'', link = None\<rparr>) = None \<and>
   totals (summary_step exact_floats lower_excerpt (product_map lower_excerpt)
             \<lparr>totals = Map.empty, date_set = {}\<rparr>
             \<lparr>number = ascii ''4'', predal = ascii ''A'', date_str = ascii ''2024-01-02'',
               product = ascii ''PAZ X-Freeze'', qty = ascii ''abc'', link = None\<rparr>)
     = totals \<lparr>totals = Map.empty, date_set = {}\<rparr>"
proof -
  let ?row = "\<lparr>number = ascii ''4'', predal = ascii ''A'', date_str = ascii ''2024-01-02'',
               product = ascii ''PAZ X-Freeze'', qty = ascii ''abc'', link = None\<rparr>"
  let ?acc = "\<lparr>totals = Map.empty, date_set = {}\<rparr> :: rat summary_acc"
  note r = parse_quantity_rules [of float_decimal "ascii '' 1 234,50 ''" exact_floats ?row
      lower_excerpt "product_map lower_excerpt" ?acc]
  have s1: "(let t = filter (\<lambda>c. c \<noteq> 32) (strip (ascii '' 1 234,50 ''))
      in if strip (ascii '' 1 234,50 '') = [] then None
         else if 44 \<in> set t \<and> 46 \<in> set t then float_decimal (filter (\<lambda>c. c \<noteq> 44) t)
         else if 44 \<in> set t then float_decimal (map (\<lambda>c. if c = 44 then 46 else c) t)
         else float_decimal t) = Some 1234.5"
    by code_simp
  have a: "parse_quantity float_decimal (ascii '' 1 234,50 '') = Some 1234.5"
    by (rule trans [OF r [THEN conjunct1] s1])
  have n: "parse_quantity (float_of_str exact_floats) (qty ?row) = None"
    by code_simp
  from r n have t: "totals (summary_step exact_floats lower_excerpt (product_map lower_excerpt)
      ?acc ?row) = totals ?acc"
    by blast
  from a n t show ?thesis by (intro conjI)
qed

text \<open>
  C8, as stated, at a product name with two tab characters between its words: the run
  of whitespace is kept, the normal form differs from that of the catalog name and is
  not a key of the product map. A no-break space is kept as well. Only U+0020 is
  collapsed.
\<close>

theorem normalize_product_keeps_tab_run:
  "normalize_product lower_excerpt (ascii ''PAZ'' @ [9, 9] @ ascii ''Mango'')
     = ascii ''paz'' @ [9, 9] @ ascii ''mango'' \<and>
   is_space 9 \<and>
   normalize_product lower_excerpt (ascii ''PAZ'' @ [9, 9] @ ascii ''Mango'')
     \<noteq> normalize_product lower_excerpt (ascii ''PAZ Mango'') \<and>
   normalize_product lower_excerpt (ascii ''PAZ'' @ [160] @ ascii ''Mango'')
     = ascii ''paz'' @ [160] @ ascii ''mango'' \<and>
   product_map lower_excerpt
     (normalize_product lower_excerpt (ascii ''PAZ'' @ [9, 9] @ ascii ''Mango'')) = None"
  by code_simp

lemma labels_of_summary:
  "(case build_summary_for_colleague F lower rows of
      Inl e \<Rightarrow> None
    | Inr (date_headers, summary_rows) \<Rightarrow> Some (filter (\<lambda>l. l \<noteq> []) (map fst summary_rows)))
   = Some PRODUCT_ORDER"
proof -
  have "filter (\<lambda>l. l \<noteq> []) (concat (map (\<lambda>p. if p \<in> fst ` set BRAND_BOUNDARIES then [p, []] else [p]) ps)) = ps"
    if "[] \<notin> set ps" for ps :: "ustring list"
    using that by (induction ps) auto
  then show ?thesis
    by (simp add: build_summary_blocks labels_of_blocks catalog_labels_nonblank)
qed

text \<open>
  C8, amended. Normalization trims the string, lower-cases it and collapses every run
  of U+0020 to a single space: the result is the one-pass reference and holds no two
  adjacent spaces. It is case-insensitive: strings whose trimmed forms lower-case to
  the same string have the same normal form. A row changes the totals only at a key
  whose product is a catalog name with the row's normal form, and the labels of the
  product rows of every summary are the catalog names.
\<close>

theorem normalize_product_spaces:
  "normalize_product lower v = squeeze_spaces (lower (strip v)) \<and>
   \<not> contains (normalize_product lower v) [32, 32] \<and>
   (lower (strip a) = lower (strip b) \<longrightarrow>
      normalize_product lower a = normalize_product lower b) \<and>
   (\<forall>key. totals (summary_step F lower (product_map lower) acc row) key \<noteq> totals acc key \<longrightarrow>
      fst key \<in> set PRODUCT_ORDER \<and>
      normalize_product lower (fst key) = normalize_product lower (product row)) \<and>
   (case build_summary_for_colleague F lower rows of
      Inl e \<Rightarrow> None
    | Inr (date_headers, summary_rows) \<Rightarrow> Some (filter (\<lambda>l. l \<noteq> []) (map fst summary_rows)))
     = Some PRODUCT_ORDER"
proof -
  have k: "\<forall>key. totals (summary_step F lower (product_map lower) acc row) key \<noteq> totals acc key \<longrightarrow>
      fst key \<in> set PRODUCT_ORDER \<and>
      normalize_product lower (fst key) = normalize_product lower (product row)"
    using summary_step_key [of F lower "product_map lower" acc row] product_map_SomeD [of lower]
    by blast
  have c: "lower (strip a) = lower (strip b) \<longrightarrow>
      normalize_product lower a = normalize_product lower b"
    by (simp add: normalize_product_def)
  have s: "normalize_product lower v = squeeze_spaces (lower (strip v))"
    by (simp add: normalize_product_def collapse_spaces_squeeze)
  have n: "\<not> contains (normalize_product lower v) [32, 32]"
    by (simp add: normalize_product_def collapse_spaces_no_pair)
  from s n c k labels_of_summary show ?thesis by (intro conjI)
qed

theorem normalize_product_spaces_witness:
  "normalize_product lower_excerpt (ascii ''  PAZ    MANGO '') = ascii ''paz mango'' \<and>
   lower_excerpt (strip (ascii ''PAZ Mango'')) = lower_excerpt (strip (ascii '' paz mango'')) \<and>
   normalize_product lower_excerpt (ascii ''PAZ Mango'')
     = normalize_product lower_excerpt (ascii '' paz mango'') \<and>
   totals (summary_step exact_floats lower_excerpt (product_map lower_excerpt)
             \<lparr>totals = Map.empty, date_set = {}\<rparr>
             \<lparr>number = ascii ''3'', predal = ascii ''A'', date_str = ascii ''2024-01-02'',
               product = ascii ''paz   MANGO'', qty = ascii ''4'', link = None\<rparr>)
       (ascii ''PAZ Mango'', ascii ''2024-01-02'')
     \<noteq> totals \<lparr>totals = Map.empty, date_set = {}\<rparr> (ascii ''PAZ Mango'', ascii ''2024-01-02'') \<and>
   fst (ascii ''PAZ Mango'', ascii ''2024-01-02'') \<in> set PRODUCT_ORDER"
proof -
  let ?row = "\<lparr>number = ascii ''3'', predal = ascii ''A'', date_str = ascii ''2024-01-02'',
               product = ascii ''paz   MANGO'', qty = ascii ''4'', link = None\<rparr>"
  let ?acc = "\<lparr>totals = Map.empty, date_set = {}\<rparr> :: rat summary_acc"
  note r = normalize_product_spaces [of lower_excerpt "ascii ''  PAZ    MANGO ''"
      "ascii ''PAZ Mango''" "ascii '' paz mango''" exact_floats ?acc ?row]
  have s: "squeeze_spaces (lower_excerpt (strip (ascii ''  PAZ    MANGO ''))) = ascii ''paz mango''"
    by code_simp
  have a: "normalize_product lower_excerpt (ascii ''  PAZ    MANGO '') = ascii ''paz mango''"
    by (rule trans [OF r [THEN conjunct1] s])
  have l: "lower_excerpt (strip (ascii ''PAZ Mango'')) = lower_excerpt (strip (ascii '' paz mango''))"
    by code_simp
  from r l have e: "normalize_product lower_excerpt (ascii ''PAZ Mango'')
     = normalize_product lower_excerpt (ascii '' paz mango'')"
    by blast
  have t: "totals (summary_step exact_floats lower_excerpt (product_map lower_excerpt) ?acc ?row)
       (ascii ''PAZ Mango'', ascii ''2024-01-02'')
     \<noteq> totals ?acc (ascii ''PAZ Mango'', ascii ''2024-01-02'')"
    by code_simp
  from r t have m: "fst (ascii ''PAZ Mango'', ascii ''2024-01-02'') \<in> set PRODUCT_ORDER"
    by blast
  from a l e t m show ?thesis by (intro conjI)
qed

section \<open>Cleanup of the extracted value\<close>

text \<open>
  The marker of \<open>clean_predal\<close>: an opening parenthesis, three Cyrillic words separated
  by comma and space, a closing parenthesis and a colon, in lower case.
\<close>

definition BOILERPLATE :: ustring where
  "BOILERPLATE =
     [40, 1080, 1084, 1077, 44, 32, 1092, 1072, 1084, 1080, 1083, 1080, 1103, 44, 32,
      1087, 1086, 1076, 1087, 1080, 1089, 41, 58]"

text \<open>
  \<open>clean_predal\<close> of desktop_app.py: \<open>find\<close> gives the first occurrence of the marker in
  the lower-cased text, and one cut removes the characters of the text at that index.
\<close>

definition clean_predal :: "(ustring \<Rightarrow> ustring) \<Rightarrow> ustring \<Rightarrow> ustring" where
  "clean_predal lower value =
     (if value = [] then []
      else
        (let text = strip value;
             marker = BOILERPLATE;
             lower_text = lower text;
             idx = str_find lower_text marker;
             text = (if idx \<noteq> - 1
                     then strip (slice_to text idx @ slice_from text (idx + int (length marker)))
                     else text)
         in strip_chars MARKER_PUNCT text))"


text \<open>\<open>find\<close> returns \<open>-1\<close> without an occurrence, and the position of the first one
  otherwise.\<close>

lemma startswith_append_self: "startswith (sub @ lb) sub"
  by (simp add: startswith_def)

lemma startswith_prefix_cong:
  "length sub \<le> length s \<Longrightarrow> startswith (s @ t) sub = startswith s sub"
  by (simp add: startswith_def)

lemma find_from_absent: "\<not> contains s sub \<Longrightarrow> find_from i s sub = - 1"
  by (induction s arbitrary: i) auto

lemma find_from_first:
  "sub \<noteq> [] \<Longrightarrow> \<not> contains (la @ butlast sub) sub \<Longrightarrow>
   find_from i (la @ sub @ lb) sub = int (i + length la)"
proof (induction la arbitrary: i)
  case Nil
  obtain x xs where c: "sub @ lb = x # xs" using Nil(1) by (cases sub) auto
  have "startswith (x # xs) sub" using startswith_append_self [of sub lb] c by simp
  then show ?case using c by simp
next
  case (Cons x la)
  have split: "(x # la) @ sub @ lb = ((x # la) @ butlast sub) @ ([last sub] @ lb)"
    using Cons(2) by simp
  have len: "length sub \<le> length ((x # la) @ butlast sub)" by simp
  have n1: "\<not> startswith ((x # la) @ butlast sub) sub" and n2: "\<not> contains (la @ butlast sub) sub"
    using Cons(3) by simp_all
  have "\<not> startswith ((x # la) @ sub @ lb) sub"
    unfolding split using n1 startswith_prefix_cong [OF len] by simp
  then have "find_from i ((x # la) @ sub @ lb) sub = find_from (Suc i) (la @ sub @ lb) sub"
    by simp
  also have "\<dots> = int (Suc i + length la)" by (rule Cons.IH [OF Cons(2) n2])
  finally show ?case by simp
qed

lemma clean_predal_absent:
  assumes "value \<noteq> []" and "\<not> contains (lower (strip value)) BOILERPLATE"
  shows "clean_predal lower value = strip_chars MARKER_PUNCT (strip value)"
  using assms by (simp add: clean_predal_def Let_def str_find_def find_from_absent)

lemma clean_predal_present:
  assumes "value \<noteq> []" and "strip value = a @ m @ b" and "length m = length BOILERPLATE"
    and "lower (strip value) = la @ BOILERPLATE @ lb" and "length la = length a"
    and "\<not> contains (la @ butlast BOILERPLATE) BOILERPLATE"
  shows "clean_predal lower value = strip_chars MARKER_PUNCT (strip (a @ b))"
proof -
  have ne: "BOILERPLATE \<noteq> []" by (simp add: BOILERPLATE_def)
  have idx: "str_find (lower (strip value)) BOILERPLATE = int (length a)"
    using find_from_first [OF ne assms(6), of 0 lb] assms(4,5) by (simp add: str_find_def)
  have t: "slice_to (a @ m @ b) (int (length a)) = a"
    by (simp add: slice_to_def)
  have d: "slice_from (a @ m @ b) (int (length a) + int (length BOILERPLATE)) = b"
    using assms(3) by (simp add: slice_from_def nat_add_distrib)
  show ?thesis
    using assms(1) idx t d by (simp add: clean_predal_def Let_def assms(2))
qed

section \<open>Resolving links through the cache\<close>

text \<open>
  A loaded row is the tuple \<open>(number, client, date_str, product, qty, link)\<close> of
  \<open>load_rows\<close>.
\<close>

record loaded_row =
  r_number :: ustring
  r_client :: ustring
  r_date :: ustring
  r_product :: ustring
  r_qty :: ustring
  r_link :: "ustring option"

text \<open>The literal that \<open>Worker.run\<close> looks for in the content type.\<close>

definition TEXT_HTML :: ustring where
  "TEXT_HTML = ascii ''text/html''"

text \<open>
  The row loop of \<open>Worker.run\<close> in desktop_app.py. The state is \<open>url_cache\<close> and
  \<open>output_rows\<close>; \<open>fetch_log\<close> records, in order, the links that \<open>fetch_html\<close> was
  called with, so that calls can be counted. \<open>fetch_html\<close> is the transport: its
  answer may depend on the moment of the call, here the number of calls made before,
  and is either an exception (\<open>Inl\<close>, caught by \<open>except Exception\<close>) or the text and
  the content type. \<open>html_to_chunks\<close> is the HTML parser of the interpreter. A link is
  resolved when it is not \<open>None\<close> and not empty.
\<close>

record worker_state =
  url_cache :: "ustring \<rightharpoonup> ustring"
  output_rows :: "output_row list"
  fetch_log :: "ustring list"

definition worker_step ::
  "(nat \<Rightarrow> ustring \<Rightarrow> 'e + ustring \<times> ustring) \<Rightarrow> (ustring \<Rightarrow> ustring list) \<Rightarrow>
   (ustring \<Rightarrow> ustring) \<Rightarrow> (ustring \<Rightarrow> ustring) \<Rightarrow>
   worker_state \<Rightarrow> loaded_row \<Rightarrow> worker_state" where
  "worker_step fetch_html html_to_chunks upper lower st row =
     (let (predal, st1) =
        (case r_link row of
           None \<Rightarrow> ([], st)
         | Some l \<Rightarrow>
             if l = [] then ([], st)
             else
               (case url_cache st l of
                  Some v \<Rightarrow> (if v \<noteq> [] then v else [], st)
                | None \<Rightarrow>
                    (case fetch_html (length (fetch_log st)) l of
                       Inr (html, content_type) \<Rightarrow>
                         (let predal =
                            (if contains content_type TEXT_HTML
                             then (case extract_predal_from_chunks upper (html_to_chunks html) of
                                     Some v \<Rightarrow> if v \<noteq> [] then v else []
                                   | None \<Rightarrow> [])
                             else []);
                              predal = clean_predal lower predal
                          in (predal, st\<lparr>url_cache := (url_cache st)(l \<mapsto> predal),
                                          fetch_log := fetch_log st @ [l]\<rparr>))
                     | Inl exc \<Rightarrow>
                         ([], st\<lparr>url_cache := (url_cache st)(l \<mapsto> []),
                                 fetch_log := fetch_log st @ [l]\<rparr>))))
      in st1\<lparr>output_rows := output_rows st1 @
           [\<lparr>number = r_number row, predal = predal, date_str = r_date row,
             product = r_product row, qty = r_qty row, link = r_link row\<rparr>]\<rparr>)"

definition worker_run ::
  "(nat \<Rightarrow> ustring \<Rightarrow> 'e + ustring \<times> ustring) \<Rightarrow> (ustring \<Rightarrow> ustring list) \<Rightarrow>
   (ustring \<Rightarrow> ustring) \<Rightarrow> (ustring \<Rightarrow> ustring) \<Rightarrow> loaded_row list \<Rightarrow> worker_state" where
  "worker_run fetch_html html_to_chunks upper lower rows =
     foldl (worker_step fetch_html html_to_chunks upper lower)
       \<lparr>url_cache = Map.empty, output_rows = [], fetch_log = []\<rparr> rows"

text \<open>The value that one answer of the transport resolves to, the links of a run that
  are resolved, and the output row that a cache gives a loaded row.\<close>

definition resolved_value ::
  "(ustring \<Rightarrow> ustring list) \<Rightarrow> (ustring \<Rightarrow> ustring) \<Rightarrow> (ustring \<Rightarrow> ustring) \<Rightarrow>
   'e + ustring \<times> ustring \<Rightarrow> ustring" where
  "resolved_value html_to_chunks upper lower response =
     (case response of
        Inl exc \<Rightarrow> []
      | Inr (html, content_type) \<Rightarrow>
          clean_predal lower
            (if contains content_type TEXT_HTML
             then (case extract_predal_from_chunks upper (html_to_chunks html) of
                     None \<Rightarrow> [] | Some v \<Rightarrow> v)
             else []))"

definition links_of :: "loaded_row list \<Rightarrow> ustring set" where
  "links_of rows = {l. l \<noteq> [] \<and> Some l \<in> set (map r_link rows)}"

definition row_predal :: "(ustring \<rightharpoonup> ustring) \<Rightarrow> loaded_row \<Rightarrow> ustring" where
  "row_predal cache row =
     (case r_link row of
        None \<Rightarrow> []
      | Some l \<Rightarrow> if l = [] then [] else (case cache l of None \<Rightarrow> [] | Some v \<Rightarrow> v))"

definition output_of :: "(ustring \<rightharpoonup> ustring) \<Rightarrow> loaded_row \<Rightarrow> output_row" where
  "output_of cache row =
     \<lparr>number = r_number row, predal = row_predal cache row, date_str = r_date row,
      product = r_product row, qty = r_qty row, link = r_link row\<rparr>"

definition worker_inv ::
  "(nat \<Rightarrow> ustring \<Rightarrow> 'e + ustring \<times> ustring) \<Rightarrow> (ustring \<Rightarrow> ustring list) \<Rightarrow>
   (ustring \<Rightarrow> ustring) \<Rightarrow> (ustring \<Rightarrow> ustring) \<Rightarrow> loaded_row list \<Rightarrow> worker_state \<Rightarrow> bool" where
  "worker_inv fetch_html html_to_chunks upper lower rows st =
     (distinct (fetch_log st) \<and>
      set (fetch_log st) = links_of rows \<and>
      dom (url_cache st) = links_of rows \<and>
      (\<forall>k < length (fetch_log st).
         url_cache st (fetch_log st ! k) =
           Some (resolved_value html_to_chunks upper lower (fetch_html k (fetch_log st ! k)))) \<and>
      output_rows st = map (output_of (url_cache st)) rows)"

lemma worker_run_snoc:
  "worker_run f h u lo (rows @ [r]) = worker_step f h u lo (worker_run f h u lo rows) r"
  by (simp add: worker_run_def)

lemma links_of_snoc:
  "links_of (rows @ [r]) =
     (case r_link r of None \<Rightarrow> links_of rows
      | Some l \<Rightarrow> if l = [] then links_of rows else insert l (links_of rows))"
  by (auto simp: links_of_def split: option.splits)

lemma output_of_cong:
  "(\<And>l. r_link row = Some l \<Longrightarrow> l \<noteq> [] \<Longrightarrow> c1 l = c2 l) \<Longrightarrow> output_of c1 row = output_of c2 row"
  by (auto simp: output_of_def row_predal_def split: option.splits)

lemma map_output_of_update:
  assumes "l \<notin> links_of rows"
  shows "map (output_of (c(l \<mapsto> v))) rows = map (output_of c) rows"
proof (rule map_cong [OF refl])
  fix row assume "row \<in> set rows"
  then have "\<And>l'. r_link row = Some l' \<Longrightarrow> l' \<noteq> [] \<Longrightarrow> l' \<in> links_of rows"
    by (force simp: links_of_def)
  with assms show "output_of (c(l \<mapsto> v)) row = output_of c row"
    by (intro output_of_cong) auto
qed

lemma extract_or_empty:
  "(case extract_predal_from_chunks upper cs of Some v \<Rightarrow> if v \<noteq> [] then v else [] | None \<Rightarrow> [])
   = (case extract_predal_from_chunks upper cs of None \<Rightarrow> [] | Some v \<Rightarrow> v)"
  by (simp split: option.splits)

lemma worker_step_inv:
  assumes "worker_inv f h u lo rows st"
  shows "worker_inv f h u lo (rows @ [r]) (worker_step f h u lo st r)"
proof (cases "r_link r")
  case None
  with assms show ?thesis
    by (simp add: worker_inv_def worker_step_def links_of_snoc output_of_def row_predal_def)
next
  case (Some l)
  show ?thesis
  proof (cases "l = []")
    case True
    with Some assms show ?thesis
      by (simp add: worker_inv_def worker_step_def links_of_snoc output_of_def row_predal_def)
  next
    case False
    show ?thesis
    proof (cases "url_cache st l")
      case (Some v)
      then have "l \<in> links_of rows" using assms by (auto simp: worker_inv_def)
      then have "insert l (links_of rows) = links_of rows" by auto
      with Some \<open>r_link r = Some l\<close> False assms show ?thesis
        by (simp add: worker_inv_def worker_step_def links_of_snoc output_of_def row_predal_def)
    next
      case None
      then have nl: "l \<notin> links_of rows" using assms by (auto simp: worker_inv_def)
      let ?v = "resolved_value h u lo (f (length (fetch_log st)) l)"
      have step: "worker_step f h u lo st r =
          st\<lparr>url_cache := (url_cache st)(l \<mapsto> ?v), fetch_log := fetch_log st @ [l],
             output_rows := output_rows st @ [output_of ((url_cache st)(l \<mapsto> ?v)) r]\<rparr>"
        using None \<open>r_link r = Some l\<close> False
        by (simp add: worker_step_def resolved_value_def output_of_def row_predal_def Let_def
            extract_or_empty split: sum.splits prod.splits)
      have old: "\<forall>k < length (fetch_log st). fetch_log st ! k \<noteq> l"
        using nl assms by (auto simp: worker_inv_def)
      show ?thesis
        unfolding step worker_inv_def using assms nl old \<open>r_link r = Some l\<close> False
        by (auto simp: worker_inv_def links_of_snoc nth_append map_output_of_update
            less_Suc_eq)
    qed
  qed
qed

lemma worker_run_inv: "worker_inv f h u lo rows (worker_run f h u lo rows)"
proof (induction rows rule: rev_induct)
  case Nil
  show ?case by (simp add: worker_inv_def worker_run_def links_of_def)
next
  case (snoc r rows)
  then show ?case by (simp only: worker_run_snoc worker_step_inv)
qed

text \<open>
  The loop of \<open>main\<close> in extract_predal.py over the pairs \<open>(doc_number, url)\<close>. The
  cache holds \<open>None\<close> for a link with no value.
\<close>

record cli_state =
  cli_cache :: "ustring \<rightharpoonup> ustring option"
  cli_results :: "(ustring \<times> ustring option \<times> ustring) list"
  cli_log :: "ustring list"

definition cli_step ::
  "(nat \<Rightarrow> ustring \<Rightarrow> 'e + ustring \<times> ustring) \<Rightarrow> (ustring \<Rightarrow> ustring list) \<Rightarrow>
   (ustring \<Rightarrow> ustring) \<Rightarrow> cli_state \<Rightarrow> ustring \<times> ustring \<Rightarrow> cli_state" where
  "cli_step fetch_html html_to_chunks upper st entry =
     (let doc_number = fst entry; url = snd entry;
          (predal, st1) =
            (case cli_cache st url of
               Some v \<Rightarrow> (v, st)
             | None \<Rightarrow>
                 (case fetch_html (length (cli_log st)) url of
                    Inr (html, content_type) \<Rightarrow>
                      (let predal =
                         (if \<not> contains content_type TEXT_HTML then None
                          else extract_predal_from_chunks upper (html_to_chunks html))
                       in (predal, st\<lparr>cli_cache := (cli_cache st)(url \<mapsto> predal),
                                       cli_log := cli_log st @ [url]\<rparr>))
                  | Inl exc \<Rightarrow>
                      (None, st\<lparr>cli_cache := (cli_cache st)(url \<mapsto> None),
                                 cli_log := cli_log st @ [url]\<rparr>)))
      in st1\<lparr>cli_results := cli_results st1 @ [(doc_number, predal, url)]\<rparr>)"

definition cli_run ::
  "(nat \<Rightarrow> ustring \<Rightarrow> 'e + ustring \<times> ustring) \<Rightarrow> (ustring \<Rightarrow> ustring list) \<Rightarrow>
   (ustring \<Rightarrow> ustring) \<Rightarrow> (ustring \<times> ustring) list \<Rightarrow> cli_state" where
  "cli_run fetch_html html_to_chunks upper links =
     foldl (cli_step fetch_html html_to_chunks upper)
       \<lparr>cli_cache = Map.empty, cli_results = [], cli_log = []\<rparr> links"

definition cli_value ::
  "(ustring \<Rightarrow> ustring list) \<Rightarrow> (ustring \<Rightarrow> ustring) \<Rightarrow> 'e + ustring \<times> ustring \<Rightarrow> ustring option" where
  "cli_value html_to_chunks upper response =
     (case response of
        Inl exc \<Rightarrow> None
      | Inr (html, content_type) \<Rightarrow>
          if contains content_type TEXT_HTML
          then extract_predal_from_chunks upper (html_to_chunks html) else None)"

definition cli_result_of ::
  "(ustring \<rightharpoonup> ustring option) \<Rightarrow> ustring \<times> ustring \<Rightarrow> ustring \<times> ustring option \<times> ustring" where
  "cli_result_of cache entry =
     (fst entry, (case cache (snd entry) of None \<Rightarrow> None | Some v \<Rightarrow> v), snd entry)"

definition cli_inv ::
  "(nat \<Rightarrow> ustring \<Rightarrow> 'e + ustring \<times> ustring) \<Rightarrow> (ustring \<Rightarrow> ustring list) \<Rightarrow>
   (ustring \<Rightarrow> ustring) \<Rightarrow> (ustring \<times> ustring) list \<Rightarrow> cli_state \<Rightarrow> bool" where
  "cli_inv fetch_html html_to_chunks upper links st =
     (distinct (cli_log st) \<and>
      set (cli_log st) = set (map snd links) \<and>
      dom (cli_cache st) = set (map snd links) \<and>
      (\<forall>k < length (cli_log st).
         cli_cache st (cli_log st ! k) =
           Some (cli_value html_to_chunks upper (fetch_html k (cli_log st ! k)))) \<and>
      cli_results st = map (cli_result_of (cli_cache st)) links)"

lemma cli_run_snoc:
  "cli_run f h u (links @ [e]) = cli_step f h u (cli_run f h u links) e"
  by (simp add: cli_run_def)

lemma map_cli_result_of_update:
  assumes "url \<notin> set (map snd links)"
  shows "map (cli_result_of (c(url \<mapsto> v))) links = map (cli_result_of c) links"
  using assms by (induction links) (auto simp: cli_result_of_def)

lemma cli_step_inv:
  assumes "cli_inv f h u links st"
  shows "cli_inv f h u (links @ [e]) (cli_step f h u st e)"
proof (cases "cli_cache st (snd e)")
  case (Some v)
  then have "snd e \<in> set (map snd links)" using assms by (auto simp: cli_inv_def)
  then have "insert (snd e) (snd ` set links) = snd ` set links" by auto
  with Some assms show ?thesis
    by (simp add: cli_inv_def cli_step_def cli_result_of_def Let_def)
next
  case None
  then have nl: "snd e \<notin> set (map snd links)" using assms by (auto simp: cli_inv_def)
  let ?v = "cli_value h u (f (length (cli_log st)) (snd e))"
  have step: "cli_step f h u st e =
      st\<lparr>cli_cache := (cli_cache st)(snd e \<mapsto> ?v), cli_log := cli_log st @ [snd e],
         cli_results := cli_results st @ [cli_result_of ((cli_cache st)(snd e \<mapsto> ?v)) e]\<rparr>"
    using None
    by (simp add: cli_step_def cli_value_def cli_result_of_def Let_def
        split: sum.splits prod.splits)
  have "snd e \<notin> set (cli_log st)" using nl assms by (simp add: cli_inv_def)
  then have old: "\<forall>k < length (cli_log st). cli_log st ! k \<noteq> snd e"
    by (metis nth_mem)
  show ?thesis
    unfolding step cli_inv_def using assms nl old
    by (auto simp: cli_inv_def nth_append map_cli_result_of_update less_Suc_eq)
qed

lemma cli_run_inv: "cli_inv f h u links (cli_run f h u links)"
proof (induction links rule: rev_induct)
  case Nil
  show ?case by (simp add: cli_inv_def cli_run_def)
next
  case (snoc e links)
  then show ?case by (simp only: cli_run_snoc cli_step_inv)
qed

lemma count_list_distinct:
  "distinct xs \<Longrightarrow> count_list xs x = (if x \<in> set xs then 1 else 0)"
  by (induction xs) auto

text \<open>
  C5. For every run of either loop, every transport and every list of rows: each link
  that is resolved is fetched exactly once, however many rows carry it, and no other
  link is fetched; the cache holds for each fetched link the value of that one
  answer; every output row carries the cached value of its link, so two rows with the
  same link carry the same value; a failed fetch is recorded as the empty value
  (\<open>None\<close> in extract_predal.py), and every input row still gets its output row.
\<close>

theorem fetch_once_per_link:
  "(\<forall>l. count_list (fetch_log (worker_run f h u lo rows)) l =
        (if l \<in> links_of rows then 1 else 0)) \<and>
   (\<forall>k < length (fetch_log (worker_run f h u lo rows)).
      url_cache (worker_run f h u lo rows) (fetch_log (worker_run f h u lo rows) ! k) =
        Some (resolved_value h u lo (f k (fetch_log (worker_run f h u lo rows) ! k)))) \<and>
   output_rows (worker_run f h u lo rows) =
     map (output_of (url_cache (worker_run f h u lo rows))) rows \<and>
   (\<forall>l. count_list (cli_log (cli_run f h u links)) l =
        (if l \<in> set (map snd links) then 1 else 0)) \<and>
   (\<forall>k < length (cli_log (cli_run f h u links)).
      cli_cache (cli_run f h u links) (cli_log (cli_run f h u links) ! k) =
        Some (cli_value h u (f k (cli_log (cli_run f h u links) ! k)))) \<and>
   cli_results (cli_run f h u links) =
     map (cli_result_of (cli_cache (cli_run f h u links))) links \<and>
   (\<forall>i < length rows. \<forall>j < length rows. r_link (rows ! i) = r_link (rows ! j) \<longrightarrow>
      predal (output_rows (worker_run f h u lo rows) ! i) =
      predal (output_rows (worker_run f h u lo rows) ! j)) \<and>
   (\<forall>i < length links. \<forall>j < length links. snd (links ! i) = snd (links ! j) \<longrightarrow>
      fst (snd (cli_results (cli_run f h u links) ! i)) =
      fst (snd (cli_results (cli_run f h u links) ! j))) \<and>
   resolved_value h u lo (Inl exc) = [] \<and>
   cli_value h u (Inl exc) = None"
proof -
  note w = worker_run_inv [of f h u lo rows, unfolded worker_inv_def]
  note c = cli_run_inv [of f h u links, unfolded cli_inv_def]
  have w1: "\<forall>l. count_list (fetch_log (worker_run f h u lo rows)) l =
        (if l \<in> links_of rows then 1 else 0)"
    using w by (simp add: count_list_distinct)
  have w3: "\<forall>k < length (fetch_log (worker_run f h u lo rows)).
      url_cache (worker_run f h u lo rows) (fetch_log (worker_run f h u lo rows) ! k) =
        Some (resolved_value h u lo (f k (fetch_log (worker_run f h u lo rows) ! k)))"
    using w by (elim conjE)
  have w4: "output_rows (worker_run f h u lo rows) =
     map (output_of (url_cache (worker_run f h u lo rows))) rows"
    using w by (elim conjE)
  have c1: "\<forall>l. count_list (cli_log (cli_run f h u links)) l =
        (if l \<in> set (map snd links) then 1 else 0)"
    using c by (simp add: count_list_distinct)
  have c3: "\<forall>k < length (cli_log (cli_run f h u links)).
      cli_cache (cli_run f h u links) (cli_log (cli_run f h u links) ! k) =
        Some (cli_value h u (f k (cli_log (cli_run f h u links) ! k)))"
    using c by (elim conjE)
  have c4: "cli_results (cli_run f h u links) =
     map (cli_result_of (cli_cache (cli_run f h u links))) links"
    using c by (elim conjE)
  have w2: "\<forall>i < length rows. \<forall>j < length rows. r_link (rows ! i) = r_link (rows ! j) \<longrightarrow>
      predal (output_rows (worker_run f h u lo rows) ! i) =
      predal (output_rows (worker_run f h u lo rows) ! j)"
    by (simp add: w4 output_of_def row_predal_def)
  have c2: "\<forall>i < length links. \<forall>j < length links. snd (links ! i) = snd (links ! j) \<longrightarrow>
      fst (snd (cli_results (cli_run f h u links) ! i)) =
      fst (snd (cli_results (cli_run f h u links) ! j))"
    by (simp add: c4 cli_result_of_def)
  have e1: "resolved_value h u lo (Inl exc) = []" by (simp add: resolved_value_def)
  have e2: "cli_value h u (Inl exc) = None" by (simp add: cli_value_def)
  from w1 w3 w4 c1 c3 c4 w2 c2 e1 e2 show ?thesis by (intro conjI)
qed

text \<open>A transport that answers the first call for one link and fails on every other
  call, and a run with that link on two rows.\<close>

definition sample_fetch :: "nat \<Rightarrow> ustring \<Rightarrow> unit + ustring \<times> ustring" where
  "sample_fetch k url =
     (if url = ascii ''http://a'' \<and> k = 0
      then Inr ([1055, 1056, 1045, 1044, 1040, 1051, 58, 32, 1048, 1074, 1072, 1085],
                ascii ''text/html; charset=utf-8'')
      else Inl ())"

definition sample_loaded :: "loaded_row list" where
  "sample_loaded =
     [\<lparr>r_number = ascii ''1'', r_client = ascii ''L'', r_date = [], r_product = [], r_qty = [],
       r_link = Some (ascii ''http://a'')\<rparr>,
      \<lparr>r_number = ascii ''2'', r_client = ascii ''L'', r_date = [], r_product = [], r_qty = [],
       r_link = Some (ascii ''http://b'')\<rparr>,
      \<lparr>r_number = ascii ''3'', r_client = ascii ''L'', r_date = [], r_product = [], r_qty = [],
       r_link = Some (ascii ''http://a'')\<rparr>,
      \<lparr>r_number = ascii ''4'', r_client = ascii ''L'', r_date = [], r_product = [], r_qty = [],
       r_link = None\<rparr>]"

theorem fetch_once_per_link_witness:
  "fetch_log (worker_run sample_fetch (\<lambda>html. [html]) upper_excerpt lower_excerpt sample_loaded)
     = [ascii ''http://a'', ascii ''http://b''] \<and>
   url_cache (worker_run sample_fetch (\<lambda>html. [html]) upper_excerpt lower_excerpt sample_loaded)
       (ascii ''http://a'') = Some [1048, 1074, 1072, 1085] \<and>
   url_cache (worker_run sample_fetch (\<lambda>html. [html]) upper_excerpt lower_excerpt sample_loaded)
       (ascii ''http://b'') = Some [] \<and>
   map predal (output_rows
       (worker_run sample_fetch (\<lambda>html. [html]) upper_excerpt lower_excerpt sample_loaded))
     = [[1048, 1074, 1072, 1085], [], [1048, 1074, 1072, 1085], []] \<and>
   cli_log (cli_run sample_fetch (\<lambda>html. [html]) upper_excerpt
       [(ascii ''1'', ascii ''http://a''), (ascii ''2'', ascii ''http://a'')])
     = [ascii ''http://a''] \<and>
   cli_cache (cli_run sample_fetch (\<lambda>html. [html]) upper_excerpt
       [(ascii ''1'', ascii ''http://a''), (ascii ''2'', ascii ''http://a'')]) (ascii ''http://a'')
     = Some (Some [1048, 1074, 1072, 1085])"
proof -
  let ?st = "worker_run sample_fetch (\<lambda>html. [html]) upper_excerpt lower_excerpt sample_loaded"
  let ?links = "[(ascii ''1'', ascii ''http://a''), (ascii ''2'', ascii ''http://a'')]"
  let ?ct = "cli_run sample_fetch (\<lambda>html. [html]) upper_excerpt ?links"
  note r = fetch_once_per_link [of sample_fetch "\<lambda>html. [html]" upper_excerpt lower_excerpt
      sample_loaded ?links "()"]
  have l: "fetch_log ?st = [ascii ''http://a'', ascii ''http://b'']" by code_simp
  have v0: "resolved_value (\<lambda>html. [html]) upper_excerpt lower_excerpt
      (sample_fetch 0 (ascii ''http://a'')) = [1048, 1074, 1072, 1085]" by code_simp
  have v1: "resolved_value (\<lambda>html. [html]) upper_excerpt lower_excerpt
      (sample_fetch 1 (ascii ''http://b'')) = []" by code_simp
  note rw = r [THEN conjunct2, THEN conjunct1, rule_format]
  note rc = r [THEN conjunct2, THEN conjunct2, THEN conjunct2, THEN conjunct2, THEN conjunct1,
      rule_format]
  from rw [of 0] have "url_cache ?st ([ascii ''http://a'', ascii ''http://b''] ! 0) =
      Some (resolved_value (\<lambda>html. [html]) upper_excerpt lower_excerpt
        (sample_fetch 0 ([ascii ''http://a'', ascii ''http://b''] ! 0)))"
    by (simp only: l length_Cons zero_less_Suc)
  with v0 have c0: "url_cache ?st (ascii ''http://a'') = Some [1048, 1074, 1072, 1085]" by simp
  from rw [of 1] have "url_cache ?st ([ascii ''http://a'', ascii ''http://b''] ! 1) =
      Some (resolved_value (\<lambda>html. [html]) upper_excerpt lower_excerpt
        (sample_fetch 1 ([ascii ''http://a'', ascii ''http://b''] ! 1)))"
    by (simp only: l length_Cons One_nat_def Suc_less_eq zero_less_Suc)
  with v1 have c1: "url_cache ?st (ascii ''http://b'') = Some []" by simp
  have o: "map predal (output_rows ?st) = [[1048, 1074, 1072, 1085], [], [1048, 1074, 1072, 1085], []]"
    by code_simp
  have cl: "cli_log ?ct = [ascii ''http://a'']" by code_simp
  have cv: "cli_value (\<lambda>html. [html]) upper_excerpt (sample_fetch 0 (ascii ''http://a''))
      = Some [1048, 1074, 1072, 1085]" by code_simp
  from rc [of 0] have "cli_cache ?ct ([ascii ''http://a''] ! 0) =
      Some (cli_value (\<lambda>html. [html]) upper_excerpt (sample_fetch 0 ([ascii ''http://a''] ! 0)))"
    by (simp only: cl length_Cons zero_less_Suc)
  with cv have cc: "cli_cache ?ct (ascii ''http://a'') = Some (Some [1048, 1074, 1072, 1085])"
    by simp
  from l c0 c1 o cl cc show ?thesis by (intro conjI)
qed

text \<open>
  C7, as stated, at a value that holds the phrase twice: one occurrence is removed and
  the other is still in the result.
\<close>

theorem clean_predal_keeps_second_occurrence:
  "clean_predal lower_excerpt (BOILERPLATE @ BOILERPLATE @ [32, 1048, 1074, 1072, 1085])
     = BOILERPLATE @ [32, 1048, 1074, 1072, 1085] \<and>
   contains (lower_excerpt
      (clean_predal lower_excerpt (BOILERPLATE @ BOILERPLATE @ [32, 1048, 1074, 1072, 1085])))
      BOILERPLATE"
  by code_simp

text \<open>
  Where lower-casing changes the length of the text before the phrase, the cut is made
  at the index of the lower-cased copy: with U+0130 before the phrase, the opening
  parenthesis stays and the cut takes the space after the phrase.
\<close>

lemma clean_predal_lower_index_misaligned:
  "clean_predal lower_excerpt ([304] @ BOILERPLATE @ [32, 1048, 1074, 1072, 1085, 58])
     = [304, 40, 1048, 1074, 1072, 1085] \<and>
   str_find (lower_excerpt ([304] @ BOILERPLATE @ [32, 1048, 1074, 1072, 1085, 58])) BOILERPLATE = 2"
  by code_simp

text \<open>
  C7, amended. The empty value stays empty. A value without the phrase in its
  lower-cased trimmed form is trimmed, then stripped of spaces, colons and no-break
  spaces at both ends. When the lower-cased trimmed text holds the phrase, first at
  the position where the text holds the span \<open>m\<close> of the same length, that span is cut
  out, the rest is trimmed and stripped in the same way. The cleanup is not part of the
  scan: \<open>Worker.run\<close> applies it to the result of the scan before it stores the value.
\<close>

theorem clean_predal_first_occurrence:
  "clean_predal lower [] = [] \<and>
   (value \<noteq> [] \<and> \<not> contains (lower (strip value)) BOILERPLATE \<longrightarrow>
      clean_predal lower value = strip_chars MARKER_PUNCT (strip value)) \<and>
   (value \<noteq> [] \<and> strip value = a @ m @ b \<and> length m = length BOILERPLATE \<and>
    lower (strip value) = la @ BOILERPLATE @ lb \<and> length la = length a \<and>
    \<not> contains (la @ butlast BOILERPLATE) BOILERPLATE \<longrightarrow>
      clean_predal lower value = strip_chars MARKER_PUNCT (strip (a @ b))) \<and>
   (r_link row = Some l \<and> l \<noteq> [] \<and> url_cache st l = None \<and>
    fetch_html (length (fetch_log st)) l = Inr (html, content_type) \<and>
    contains content_type TEXT_HTML \<longrightarrow>
      url_cache (worker_step fetch_html html_to_chunks upper lower st row) l =
        Some (clean_predal lower
          (case extract_predal_from_chunks upper (html_to_chunks html) of
             None \<Rightarrow> [] | Some v \<Rightarrow> v)))"
proof -
  have e: "clean_predal lower [] = []" by (simp add: clean_predal_def)
  have w: "r_link row = Some l \<and> l \<noteq> [] \<and> url_cache st l = None \<and>
    fetch_html (length (fetch_log st)) l = Inr (html, content_type) \<and>
    contains content_type TEXT_HTML \<longrightarrow>
      url_cache (worker_step fetch_html html_to_chunks upper lower st row) l =
        Some (clean_predal lower
          (case extract_predal_from_chunks upper (html_to_chunks html) of
             None \<Rightarrow> [] | Some v \<Rightarrow> v))"
    by (simp add: worker_step_def Let_def extract_or_empty)
  have a: "value \<noteq> [] \<and> \<not> contains (lower (strip value)) BOILERPLATE \<longrightarrow>
      clean_predal lower value = strip_chars MARKER_PUNCT (strip value)"
    using clean_predal_absent by blast
  have p: "value \<noteq> [] \<and> strip value = a @ m @ b \<and> length m = length BOILERPLATE \<and>
    lower (strip value) = la @ BOILERPLATE @ lb \<and> length la = length a \<and>
    \<not> contains (la @ butlast BOILERPLATE) BOILERPLATE \<longrightarrow>
      clean_predal lower value = strip_chars MARKER_PUNCT (strip (a @ b))"
    using clean_predal_present by blast
  from e a p w show ?thesis by (intro conjI)
qed

theorem clean_predal_first_occurrence_witness:
  "clean_predal lower_excerpt
      ([1048, 58, 32] @ upper_excerpt BOILERPLATE @ [32, 1048, 1074, 1072, 1085, 58, 32])
     = [1048, 58, 32, 32, 1048, 1074, 1072, 1085] \<and>
   clean_predal lower_excerpt [32, 58, 1048, 1074, 1072, 1085, 160] = [1048, 1074, 1072, 1085] \<and>
   url_cache (worker_step sample_fetch (\<lambda>html. [html]) upper_excerpt lower_excerpt
       \<lparr>url_cache = Map.empty, output_rows = [], fetch_log = []\<rparr> (hd sample_loaded))
     (ascii ''http://a'') = Some [1048, 1074, 1072, 1085]"
proof -
  let ?v = "[1048, 58, 32] @ upper_excerpt BOILERPLATE @ [32, 1048, 1074, 1072, 1085, 58, 32]"
  let ?a = "[1048, 58, 32] :: ustring" and ?m = "upper_excerpt BOILERPLATE"
  let ?b = "[32, 1048, 1074, 1072, 1085, 58] :: ustring"
  let ?la = "[1080, 58, 32] :: ustring" and ?lb = "[32, 1080, 1074, 1072, 1085, 58] :: ustring"
  note r = clean_predal_first_occurrence [of lower_excerpt ?v ?a ?m ?b ?la ?lb]
  have h: "?v \<noteq> [] \<and> strip ?v = ?a @ ?m @ ?b \<and> length ?m = length BOILERPLATE \<and>
    lower_excerpt (strip ?v) = ?la @ BOILERPLATE @ ?lb \<and> length ?la = length ?a \<and>
    \<not> contains (?la @ butlast BOILERPLATE) BOILERPLATE"
    by code_simp
  have s: "strip_chars MARKER_PUNCT (strip (?a @ ?b)) = [1048, 58, 32, 32, 1048, 1074, 1072, 1085]"
    by code_simp
  from r [THEN conjunct2, THEN conjunct2, THEN conjunct1] h
  have "clean_predal lower_excerpt ?v = strip_chars MARKER_PUNCT (strip (?a @ ?b))"
    by (rule mp)
  with s have c1: "clean_predal lower_excerpt ?v = [1048, 58, 32, 32, 1048, 1074, 1072, 1085]"
    by simp
  let ?w = "[32, 58, 1048, 1074, 1072, 1085, 160] :: ustring"
  note r2 = clean_predal_first_occurrence [of lower_excerpt ?w]
  have h2: "?w \<noteq> [] \<and> \<not> contains (lower_excerpt (strip ?w)) BOILERPLATE"
    by code_simp
  have s2: "strip_chars MARKER_PUNCT (strip ?w) = [1048, 1074, 1072, 1085]"
    by code_simp
  from r2 [THEN conjunct2, THEN conjunct1] h2
  have "clean_predal lower_excerpt ?w = strip_chars MARKER_PUNCT (strip ?w)"
    by (rule mp)
  with s2 have c2: "clean_predal lower_excerpt ?w = [1048, 1074, 1072, 1085]" by simp
  let ?st = "\<lparr>url_cache = Map.empty, output_rows = [], fetch_log = []\<rparr>"
  let ?html = "[1055, 1056, 1045, 1044, 1040, 1051, 58, 32, 1048, 1074, 1072, 1085] :: ustring"
  note r3 = clean_predal_first_occurrence [of lower_excerpt _ _ _ _ _ _ "hd sample_loaded"
      "ascii ''http://a''" ?st sample_fetch ?html "ascii ''text/html; charset=utf-8''"
      "\<lambda>html. [html]" upper_excerpt]
  have h3: "r_link (hd sample_loaded) = Some (ascii ''http://a'') \<and> ascii ''http://a'' \<noteq> [] \<and>
      url_cache ?st (ascii ''http://a'') = None \<and>
      sample_fetch (length (fetch_log ?st)) (ascii ''http://a'')
        = Inr (?html, ascii ''text/html; charset=utf-8'') \<and>
      contains (ascii ''text/html; charset=utf-8'') TEXT_HTML"
    by code_simp
  have s3: "clean_predal lower_excerpt
      (case extract_predal_from_chunks upper_excerpt [?html] of None \<Rightarrow> [] | Some v \<Rightarrow> v)
      = [1048, 1074, 1072, 1085]"
    by code_simp
  from r3 [THEN conjunct2, THEN conjunct2, THEN conjunct2] h3
  have "url_cache (worker_step sample_fetch (\<lambda>html. [html]) upper_excerpt lower_excerpt ?st
        (hd sample_loaded)) (ascii ''http://a'')
      = Some (clean_predal lower_excerpt
          (case extract_predal_from_chunks upper_excerpt [?html] of None \<Rightarrow> [] | Some v \<Rightarrow> v))"
    by (rule mp)
  with s3 have c3: "url_cache (worker_step sample_fetch (\<lambda>html. [html]) upper_excerpt
        lower_excerpt ?st (hd sample_loaded)) (ascii ''http://a'') = Some [1048, 1074, 1072, 1085]"
    by simp
  from c1 c2 c3 show ?thesis by (intro conjI)
qed

end
